theory Spec2Isabelle
  imports Complex_Main "HOL-Library.Sublist"
begin

section \<open>Lighthouse: capture and recognition pipeline (src/src/main.py)\<close>

text \<open>
  Shallow embedding of the decision logic of \<^verbatim>\<open>main.py\<close>.  A Python float (a score, a
  threshold, a frame difference) is read as the real number it stands for, and floats
  are compared as these numbers are.  A product of floats is rounded by the machine, so
  it is not the product of the reals: the multiplication, and the conversion of an integer
  that is multiplied with a float, are parameters of the model (\<open>float_ops\<close>), and what
  is proved holds for every such arithmetic.  Python integers are \<open>int\<close>.  Frames, items,
  feature descriptors and audio samples are opaque to this code, so they are type
  variables.  Collaborators that live outside \<^verbatim>\<open>main.py\<close> (the image database, the
  descriptor extractor, the camera, the audio recorder, OpenCV) are parameters of the
  functions that call them.  What a function does to the outside world is returned as a
  list of events, in order.
\<close>

subsection \<open>Configuration and errors\<close>

text \<open>
The fields of \<^verbatim>\<open>options\<close> (from \<^verbatim>\<open>config.get_config()\<close>) that the modelled code reads.
\<close>

record options =
  matching_score_threshold :: real
  matching_score_ratio :: real
  matching_n_frames :: int
  motion_skip_frames :: int
  motion_stability_duration :: int
  motion_stability_factor :: real
  motion_background_removal_strategy :: string
  video_width :: int
  video_height :: int
  log_path :: "string option"

text \<open>
  The float arithmetic of the interpreter: \<open>float_mul a b\<close> is the float that \<^verbatim>\<open>a * b\<close>
  evaluates to, \<open>float_of_int n\<close> the float that the integer \<^verbatim>\<open>n\<close> is converted to when it
  is multiplied with a float.
\<close>

record float_ops =
  float_mul :: "real \<Rightarrow> real \<Rightarrow> real"
  float_of_int :: "int \<Rightarrow> real"

text \<open>
The exceptions that the modelled code can raise.
\<close>

datatype error =
    IndexError \<comment> \<open>\<^verbatim>\<open>matches[0]\<close> on an empty list\<close>
  | Exception \<comment> \<open>\<^verbatim>\<open>raise Exception\<close> in \<^verbatim>\<open>capture_frames_then\<close>\<close>
  | SystemExit \<comment> \<open>\<^verbatim>\<open>sys.exit(0)\<close>\<close>
  | Cv2_error \<comment> \<open>an OpenCV call on \<^verbatim>\<open>None\<close>\<close>

subsection \<open>Matching decision engine\<close>

text \<open>
A match is the tuple \<^verbatim>\<open>(score, item)\<close>; \<^verbatim>\<open>match[0]\<close> is \<open>fst\<close>.
\<close>

type_synonym 'i match_candidate = "real \<times> 'i"

text \<open>
  The \<^verbatim>\<open>for match in matches[1:]\<close> loop of \<^verbatim>\<open>pick_only_accurate_matches\<close>, with
  \<^verbatim>\<open>retval\<close> as accumulator; \<^verbatim>\<open>break\<close> returns the accumulator.  The product
  \<^verbatim>\<open>best_score * options.matching_score_ratio\<close> is a product of floats.
\<close>

fun pick_loop :: "options \<Rightarrow> float_ops \<Rightarrow> real \<Rightarrow> 'i match_candidate list \<Rightarrow> 'i match_candidate list
    \<Rightarrow> 'i match_candidate list" where
  "pick_loop opts fl best_score retval [] = retval"
| "pick_loop opts fl best_score retval (m # rest) =
     (if fst m \<ge> matching_score_threshold opts \<and>
         fst m \<ge> float_mul fl best_score (matching_score_ratio opts)
      then pick_loop opts fl best_score (retval @ [m]) rest
      else retval)"

text \<open>
  \<^verbatim>\<open>pick_only_accurate_matches\<close> (lines 56-71).  On the empty list \<^verbatim>\<open>best_score\<close> is 0, and
  \<^verbatim>\<open>matches[0]\<close> raises when the threshold is not positive.
\<close>

definition pick_only_accurate_matches ::
    "options \<Rightarrow> float_ops \<Rightarrow> 'i match_candidate list \<Rightarrow> error + 'i match_candidate list" where
  "pick_only_accurate_matches opts fl matches =
     (let best_score = (if length matches > 0 then fst (hd matches) else 0) in
      if best_score \<ge> matching_score_threshold opts then
        (case matches of
           [] \<Rightarrow> Inl IndexError
         | m0 # rest \<Rightarrow> Inr (pick_loop opts fl best_score [m0] rest))
      else Inr [])"

text \<open>
What \<^verbatim>\<open>match_item\<close> does to the outside world.
\<close>

datatype 'i audio_file =
    Sound string \<comment> \<open>\<^verbatim>\<open>get_sound(name)\<close>\<close>
  | Audio_filename 'i \<comment> \<open>\<^verbatim>\<open>item.audio_filename()\<close>\<close>

datatype ('f, 'i) match_event =
    Db_match 'f \<comment> \<open>\<^verbatim>\<open>db.match(image)\<close>\<close>
  | Playfile "'i audio_file" \<comment> \<open>\<^verbatim>\<open>audioutils.playfile(...)\<close>\<close>
  | Sleep real \<comment> \<open>\<^verbatim>\<open>time.sleep(...)\<close>\<close>
  | Imwrite_match 'f real 'i \<comment> \<open>\<^verbatim>\<open>item.draw_match(image)\<close>, \<^verbatim>\<open>putText\<close> of the score, \<^verbatim>\<open>imwrite\<close>\<close>
  | Imwrite_original 'f \<comment> \<open>\<^verbatim>\<open>cv2.imwrite(filename_original, image)\<close>\<close>

text \<open>
  The scanning loop of \<^verbatim>\<open>match_item\<close> (lines 81-91).  \<open>db img\<close> is \<^verbatim>\<open>db.match(image)\<close>:
  \<open>None\<close> when it raises \<^verbatim>\<open>TooFewFeaturesException\<close>, the ranked list otherwise.  The
  loop state is the variables \<^verbatim>\<open>matches\<close> and \<^verbatim>\<open>image\<close>, and the frames passed to
  \<^verbatim>\<open>db.match\<close> so far.
\<close>

fun scan_frames :: "options \<Rightarrow> ('f \<Rightarrow> 'i match_candidate list option) \<Rightarrow> 'f list
    \<Rightarrow> 'i match_candidate list \<times> 'f option \<times> 'f list
    \<Rightarrow> 'i match_candidate list \<times> 'f option \<times> 'f list" where
  "scan_frames opts db [] st = st"
| "scan_frames opts db (img # rest) (matches, prev_img, queried) =
     (case db img of
        None \<Rightarrow> scan_frames opts db rest (matches, Some img, queried @ [img])
      | Some ms \<Rightarrow>
          if length ms > 0 \<and> fst (hd ms) \<ge> matching_score_threshold opts
          then (ms, Some img, queried @ [img])
          else scan_frames opts db rest (ms, Some img, queried @ [img]))"

text \<open>
The \<^verbatim>\<open>for (score, match) in accurate_matches\<close> loop (lines 111-114).
\<close>

fun play_each :: "'i match_candidate list \<Rightarrow> ('f, 'i) match_event list" where
  "play_each [] = []"
| "play_each ((score, m) # rest) = Playfile (Audio_filename m) # Sleep 0.2 # play_each rest"

text \<open>
The \<^verbatim>\<open>if\<close>/\<^verbatim>\<open>elif\<close>/\<^verbatim>\<open>else\<close> on \<^verbatim>\<open>len(accurate_matches)\<close> (lines 100-114).
\<close>

definition announce :: "'i match_candidate list \<Rightarrow> ('f, 'i) match_event list" where
  "announce accurate_matches =
     (if length accurate_matches = 0 then [Playfile (Sound ''noitem.wav'')]
      else if length accurate_matches = 1 then
        (case hd accurate_matches of (score, item) \<Rightarrow> [Playfile (Audio_filename item)])
      else Playfile (Sound ''multipleitems.wav'') # play_each accurate_matches)"

text \<open>
The diagnostics block (lines 116-130): \<^verbatim>\<open>if options.log_path and len(matches) > 0\<close>.
\<close>

definition save_diagnostics :: "options \<Rightarrow> 'i match_candidate list \<Rightarrow> 'f option
    \<Rightarrow> ('f, 'i) match_event list" where
  "save_diagnostics opts matches img =
     (case (log_path opts, matches, img) of
        (Some p, (score, item) # _, Some i) \<Rightarrow>
          if p \<noteq> [] then [Imwrite_match i score item, Imwrite_original i] else []
      | _ \<Rightarrow> [])"

text \<open>
\<^verbatim>\<open>match_item\<close> (lines 74-130).
\<close>

definition match_item :: "options \<Rightarrow> float_ops \<Rightarrow> ('f \<Rightarrow> 'i match_candidate list option) \<Rightarrow> 'f list
    \<Rightarrow> error + ('f, 'i) match_event list" where
  "match_item opts fl db frames =
     (case scan_frames opts db frames ([], None, []) of
        (matches, img, queried) \<Rightarrow>
          if length matches = 0
          then Inr (map Db_match queried @ [Playfile (Sound ''nothing_recognized.wav'')])
          else (case pick_only_accurate_matches opts fl matches of
                  Inl e \<Rightarrow> Inl e
                | Inr accurate_matches \<Rightarrow>
                    Inr (map Db_match queried @ announce accurate_matches
                         @ save_diagnostics opts matches img)))"

subsection \<open>Recording pipeline\<close>

text \<open>
  An \<^verbatim>\<open>ImageDescription\<close>, of which the code reads \<^verbatim>\<open>features\<close>; the tones defined at the
  top of the module; what \<^verbatim>\<open>record_new_item\<close> does to the outside world.
\<close>

record 'k image_description =
  features :: "'k list"

datatype tone = START_RECORDING_TONE | STOP_RECORDING_TONE | CHIRP | SHUTTER_TONE

datatype ('f, 'k, 'a) record_event =
    Playfile_sound string
  | Play_tone tone
  | Record_audio
  | Db_add "'f option" "'a list" "'k image_description"
  | Play_audio "'a list"

text \<open>
  The body of the \<^verbatim>\<open>for image in frames\<close> loop of \<^verbatim>\<open>record_new_item\<close> (lines 487-495).
  \<open>from_image img\<close> is \<^verbatim>\<open>ImageDescription.from_image(image)\<close>, \<open>None\<close> when it raises
  \<^verbatim>\<open>TooFewFeaturesException\<close>; the state is \<^verbatim>\<open>best_description\<close> and \<^verbatim>\<open>best_image\<close>.
\<close>

definition choose_step :: "('f \<Rightarrow> 'k image_description option) \<Rightarrow> 'f
    \<Rightarrow> 'k image_description option \<times> 'f option \<Rightarrow> 'k image_description option \<times> 'f option" where
  "choose_step from_image img st =
     (case st of (best_description, best_image) \<Rightarrow>
        (case from_image img of
           None \<Rightarrow> (best_description, best_image)
         | Some description \<Rightarrow>
             if (case best_description of
                   None \<Rightarrow> True
                 | Some b \<Rightarrow> length (features b) < length (features description))
             then (Some description, Some img)
             else (best_description, best_image)))"

fun choose_best :: "('f \<Rightarrow> 'k image_description option) \<Rightarrow> 'f list
    \<Rightarrow> 'k image_description option \<times> 'f option \<Rightarrow> 'k image_description option \<times> 'f option" where
  "choose_best from_image [] st = st"
| "choose_best from_image (img # rest) st = choose_best from_image rest (choose_step from_image img st)"

text \<open>
  The \<^verbatim>\<open>while audio is None\<close> loop (lines 502-512).  The list holds what the successive calls
  of \<^verbatim>\<open>audioutils.record\<close> return; the loop has no bound of its own, and \<open>None\<close> says that
  it is still running when the list is used up.
\<close>

fun record_loop :: "'a list list \<Rightarrow> ('f, 'k, 'a) record_event list
    \<Rightarrow> (('f, 'k, 'a) record_event list \<times> 'a list) option" where
  "record_loop [] evs = None"
| "record_loop (audio # rest) evs =
     (let evs' = evs @ [Playfile_sound ''afterthetone.wav'', Play_tone START_RECORDING_TONE,
                        Record_audio, Play_tone STOP_RECORDING_TONE]
      in if length audio < 800
         then record_loop rest (evs' @ [Playfile_sound ''nosound.wav''])
         else Some (evs', audio))"

text \<open>
\<^verbatim>\<open>record_new_item\<close> (lines 479-517).
\<close>

definition record_new_item :: "('f \<Rightarrow> 'k image_description option) \<Rightarrow> 'a list list \<Rightarrow> 'f list
    \<Rightarrow> ('f, 'k, 'a) record_event list option" where
  "record_new_item from_image recordings frames =
     (case choose_best from_image frames (None, None) of
        (None, _) \<Rightarrow> Some [Playfile_sound ''nothing_recognized.wav'']
      | (Some best_description, best_image) \<Rightarrow>
          (case record_loop recordings [] of
             None \<Rightarrow> None
           | Some (evs, audio) \<Rightarrow>
               Some (evs @ [Db_add best_image audio best_description,
                            Playfile_sound ''registered.wav'', Play_audio audio])))"

subsection \<open>Capture strategies\<close>

text \<open>
  A strategy returns either a list of frames or a number of seconds to wait before it
  is called again.
\<close>

datatype 'f capture_result = Frame_list "'f list" | Seconds real

text \<open>
  What the capture code does to the outside world.  \<open>Cv2_norm a b\<close> is the call
  \<^verbatim>\<open>cv2.norm(a, b)\<close>; \<open>Called c\<close> is a call of the callback, with what it did.
\<close>

datatype ('f, 'c) sys_event =
    Camera_start
  | Playfile_sys string
  | Play tone
  | Play_async tone
  | Cv2_norm 'f 'f
  | Called 'c
  | Print_usage

text \<open>
  What \<^verbatim>\<open>eventloop.later\<close> is given: \<^verbatim>\<open>ready\<close>, or the closure that calls
  \<^verbatim>\<open>capture_frames_then(callback)\<close> again.
\<close>

datatype ('f, 'c) task = Ready | Capture_frames_then "'f list \<Rightarrow> (error + 'c) option"

text \<open>
  The module state: the globals \<^verbatim>\<open>busy\<close> and \<^verbatim>\<open>_full_image_for_capture_by_unhiding\<close>, the
  frames that the camera will deliver to the next calls of \<^verbatim>\<open>camera.capture()\<close>, the
  calls of \<^verbatim>\<open>eventloop.later\<close> made so far, and the events so far.  A loop that asks for
  a frame when the list is used up is still running: it has no result.
\<close>

record ('f, 'c) sys =
  busy :: bool
  full_image_for_capture_by_unhiding :: "'f option"
  camera :: "'f list"
  later :: "(('f, 'c) task \<times> real) list"
  events :: "('f, 'c) sys_event list"

text \<open>
  OpenCV, as far as the capture code depends on it: \<^verbatim>\<open>cv2.norm\<close>, the colour conversion of
  \<^verbatim>\<open>capture_everything\<close>, and the three background removals (lines 299-351, 412-471
  and 169-219), which are opaque here.
\<close>

record 'f cv2_ops =
  cv_norm :: "'f \<Rightarrow> 'f \<Rightarrow> real"
  cvtColor_BGR2BGRA :: "'f \<Rightarrow> 'f"
  difference_object :: "'f \<Rightarrow> 'f \<Rightarrow> 'f"
  subtract_background :: "'f list \<Rightarrow> 'f list"
  subtract_background_noisy :: "'f list \<Rightarrow> 'f list"

text \<open>
  \<^verbatim>\<open>surface * options.motion_stability_factor\<close>, where \<^verbatim>\<open>surface\<close> is the integer
  \<^verbatim>\<open>options.video_width * options.video_height\<close>: the integer is converted to a float and
  the floats are multiplied.
\<close>

definition stability_limit :: "options \<Rightarrow> float_ops \<Rightarrow> real" where
  "stability_limit opts fl =
     float_mul fl (float_of_int fl (video_width opts * video_height opts))
       (motion_stability_factor opts)"

text \<open>
  The acquisition loop of \<^verbatim>\<open>capture_by_subtracting\<close> (lines 387-408) and of
  \<^verbatim>\<open>capture_moving_objects\<close> (lines 146-167): the same text, with a different
  \<^verbatim>\<open>expected_number_of_frames\<close>.  The state is the loop's variables, and the arguments of
  the calls of \<^verbatim>\<open>cv2.norm\<close> so far.
\<close>

record 'f acquisition =
  previous_frame :: "'f option"
  captured_frames :: "'f list"
  stable_captured_frames :: int
  norm_calls :: "('f \<times> 'f) list"

definition acquire_init :: "'f acquisition" where
  "acquire_init = \<lparr>previous_frame = None, captured_frames = [], stable_captured_frames = 0,
                   norm_calls = []\<rparr>"

text \<open>
The condition of the \<^verbatim>\<open>while\<close>.
\<close>

definition still_moving :: "options \<Rightarrow> int \<Rightarrow> 'f acquisition \<Rightarrow> bool" where
  "still_moving opts expected_number_of_frames st \<longleftrightarrow>
     int (length (captured_frames st)) < expected_number_of_frames
     \<or> stable_captured_frames st < motion_stability_duration opts"

text \<open>
The body of the \<^verbatim>\<open>while\<close>, once \<^verbatim>\<open>camera.capture()\<close> has returned \<^verbatim>\<open>frame\<close>.
\<close>

definition acquire_step :: "options \<Rightarrow> float_ops \<Rightarrow> 'f cv2_ops \<Rightarrow> int \<Rightarrow> 'f \<Rightarrow> 'f acquisition
    \<Rightarrow> 'f acquisition" where
  "acquire_step opts fl cv expected_number_of_frames frame st =
     (let appended = captured_frames st @ [frame];
          kept = (if int (length appended) > expected_number_of_frames
                  then tl appended else appended);
          st1 = st\<lparr>captured_frames := kept\<rparr>;
          st2 = (case previous_frame st of
                   None \<Rightarrow> st1
                 | Some prev \<Rightarrow>
                     (let diff = cv_norm cv prev frame in
                      st1\<lparr>stable_captured_frames :=
                            (if diff \<le> stability_limit opts fl
                             then stable_captured_frames st + 1 else 0),
                          norm_calls := norm_calls st @ [(prev, frame)]\<rparr>))
      in st2\<lparr>previous_frame := Some frame\<rparr>)"

fun acquire_loop :: "options \<Rightarrow> float_ops \<Rightarrow> 'f cv2_ops \<Rightarrow> int \<Rightarrow> 'f list \<Rightarrow> 'f acquisition
    \<Rightarrow> ('f acquisition \<times> 'f list) option" where
  "acquire_loop opts fl cv expected [] st =
     (if still_moving opts expected st then None else Some (st, []))"
| "acquire_loop opts fl cv expected (frame # cam) st =
     (if still_moving opts expected st
      then acquire_loop opts fl cv expected cam (acquire_step opts fl cv expected frame st)
      else Some (st, frame # cam))"

definition norm_events :: "('f \<times> 'f) list \<Rightarrow> ('f, 'c) sys_event list" where
  "norm_events calls = map (\<lambda>(a, b). Cv2_norm a b) calls"

text \<open>
\<^verbatim>\<open>capture_by_subtracting\<close> (lines 367-476).
\<close>

definition capture_by_subtracting :: "options \<Rightarrow> float_ops \<Rightarrow> 'f cv2_ops \<Rightarrow> ('f, 'c) sys
    \<Rightarrow> ((error + 'f capture_result) \<times> ('f, 'c) sys) option" where
  "capture_by_subtracting opts fl cv s =
     (let expected_number_of_frames = motion_skip_frames opts + matching_n_frames opts;
          s1 = s\<lparr>events := events s @ [Playfile_sys ''shake_it.wav'']\<rparr>
      in case acquire_loop opts fl cv expected_number_of_frames (camera s1) acquire_init of
           None \<Rightarrow> None
         | Some (st, cam) \<Rightarrow>
             Some (Inr (Frame_list (subtract_background cv (captured_frames st))),
                   s1\<lparr>camera := cam,
                      events := events s1 @ norm_events (norm_calls st)
                                @ [Play_async SHUTTER_TONE]\<rparr>))"

text \<open>
\<^verbatim>\<open>capture_moving_objects\<close> (lines 133-226).
\<close>

definition capture_moving_objects :: "options \<Rightarrow> float_ops \<Rightarrow> 'f cv2_ops \<Rightarrow> int \<Rightarrow> ('f, 'c) sys
    \<Rightarrow> ('f list \<times> ('f, 'c) sys) option" where
  "capture_moving_objects opts fl cv expected_number_of_frames s =
     (let expected = expected_number_of_frames + motion_skip_frames opts
      in case acquire_loop opts fl cv expected (camera s) acquire_init of
           None \<Rightarrow> None
         | Some (st, cam) \<Rightarrow>
             Some (subtract_background_noisy cv (captured_frames st),
                   s\<lparr>camera := cam, events := events s @ norm_events (norm_calls st)\<rparr>))"

text \<open>
\<^verbatim>\<open>capture_everything\<close> (lines 229-241).
\<close>

fun everything_loop :: "options \<Rightarrow> 'f cv2_ops \<Rightarrow> 'f list \<Rightarrow> 'f list \<Rightarrow> ('f list \<times> 'f list) option" where
  "everything_loop opts cv [] captured =
     (if int (length captured) < matching_n_frames opts then None else Some (captured, []))"
| "everything_loop opts cv (frame # cam) captured =
     (if int (length captured) < matching_n_frames opts
      then everything_loop opts cv cam (captured @ [cvtColor_BGR2BGRA cv frame])
      else Some (captured, frame # cam))"

definition capture_everything :: "options \<Rightarrow> 'f cv2_ops \<Rightarrow> ('f, 'c) sys
    \<Rightarrow> ((error + 'f capture_result) \<times> ('f, 'c) sys) option" where
  "capture_everything opts cv s =
     (case everything_loop opts cv (camera s) [] of
        None \<Rightarrow> None
      | Some (captured, cam) \<Rightarrow>
          Some (Inr (Frame_list captured),
                s\<lparr>camera := cam, events := events s @ [Play_async SHUTTER_TONE]\<rparr>))"

text \<open>
  The loop of the second call of \<^verbatim>\<open>capture_by_unhiding\<close> (lines 273-291): the variables
  \<^verbatim>\<open>previous_frame\<close>, \<^verbatim>\<open>frame\<close> and \<^verbatim>\<open>stable_captured_frames\<close>, and the calls of
  \<^verbatim>\<open>cv2.norm\<close>.
\<close>

record 'f unhiding =
  u_previous_frame :: 'f
  u_frame :: "'f option"
  u_stable_captured_frames :: int
  u_norm_calls :: "('f \<times> 'f) list"

definition unhide_init :: "'f \<Rightarrow> 'f unhiding" where
  "unhide_init full_image = \<lparr>u_previous_frame = full_image, u_frame = None,
     u_stable_captured_frames = 0, u_norm_calls = []\<rparr>"

definition unhide_step :: "options \<Rightarrow> float_ops \<Rightarrow> 'f cv2_ops \<Rightarrow> 'f \<Rightarrow> 'f unhiding \<Rightarrow> 'f unhiding" where
  "unhide_step opts fl cv frame st =
     (let diff = cv_norm cv (u_previous_frame st) frame in
      \<lparr>u_previous_frame = frame, u_frame = Some frame,
       u_stable_captured_frames =
         (if diff \<le> stability_limit opts fl then u_stable_captured_frames st + 1 else 0),
       u_norm_calls = u_norm_calls st @ [(u_previous_frame st, frame)]\<rparr>)"

fun unhide_loop :: "options \<Rightarrow> float_ops \<Rightarrow> 'f cv2_ops \<Rightarrow> 'f list \<Rightarrow> 'f unhiding
    \<Rightarrow> ('f unhiding \<times> 'f list) option" where
  "unhide_loop opts fl cv [] st =
     (if u_stable_captured_frames st < motion_stability_duration opts then None
      else Some (st, []))"
| "unhide_loop opts fl cv (frame # cam) st =
     (if u_stable_captured_frames st < motion_stability_duration opts
      then unhide_loop opts fl cv cam (unhide_step opts fl cv frame st)
      else Some (st, frame # cam))"

text \<open>
  \<^verbatim>\<open>capture_by_unhiding\<close> (lines 244-364).  When the loop has not run, \<^verbatim>\<open>frame\<close> is still
  \<^verbatim>\<open>None\<close> and \<^verbatim>\<open>cv2.resize(frame, ...)\<close> raises.
\<close>

definition capture_by_unhiding :: "options \<Rightarrow> float_ops \<Rightarrow> 'f cv2_ops \<Rightarrow> ('f, 'c) sys
    \<Rightarrow> ((error + 'f capture_result) \<times> ('f, 'c) sys) option" where
  "capture_by_unhiding opts fl cv s =
     (case full_image_for_capture_by_unhiding s of
        None \<Rightarrow>
          (let s1 = s\<lparr>events := events s @ [Camera_start, Playfile_sys ''register_step1.wav'']\<rparr>
           in case camera s1 of
                [] \<Rightarrow> None
              | frame # cam \<Rightarrow>
                  Some (Inr (Seconds 0),
                        s1\<lparr>full_image_for_capture_by_unhiding := Some frame, camera := cam,
                           events := events s1 @ [Play SHUTTER_TONE,
                                                  Playfile_sys ''register_step2.wav'']\<rparr>))
      | Some full_image \<Rightarrow>
          (let s1 = s\<lparr>full_image_for_capture_by_unhiding := None\<rparr>
           in case unhide_loop opts fl cv (camera s1) (unhide_init full_image) of
                None \<Rightarrow> None
              | Some (st, cam) \<Rightarrow>
                  (let s2 = s1\<lparr>camera := cam,
                                events := events s1 @ norm_events (u_norm_calls st)\<rparr>
                   in case u_frame st of
                        None \<Rightarrow> Some (Inl Cv2_error, s2)
                      | Some frame \<Rightarrow>
                          Some (Inr (Frame_list [difference_object cv full_image frame]),
                                s2\<lparr>events := events s2 @ [Play_async SHUTTER_TONE]\<rparr>))))"

subsection \<open>Capture orchestrator\<close>

text \<open>
\<^verbatim>\<open>ready\<close> (lines 521-524).
\<close>

definition ready :: "('f, 'c) sys \<Rightarrow> ('f, 'c) sys" where
  "ready s = s\<lparr>busy := False, events := events s @ [Play CHIRP]\<rparr>"

text \<open>
  \<^verbatim>\<open>capture_frames_then\<close> (lines 527-549).  \<open>callback frames\<close> is the call
  \<^verbatim>\<open>callback(frames)\<close>: \<open>None\<close> when it does not return, \<open>Inl e\<close> when it raises \<open>e\<close>, and
  what it did when it returns.  An exception of the strategy or of the callback leaves
  the function at once, so nothing after it is run.
\<close>

definition capture_frames_then :: "options \<Rightarrow> float_ops \<Rightarrow> 'f cv2_ops \<Rightarrow> ('f list \<Rightarrow> (error + 'c) option)
    \<Rightarrow> ('f, 'c) sys \<Rightarrow> ((error + unit) \<times> ('f, 'c) sys) option" where
  "capture_frames_then opts fl cv callback s =
     (let s1 = s\<lparr>busy := True\<rparr>;
          outcome =
            (if motion_background_removal_strategy opts = ''keep-everything''
             then capture_everything opts cv s1
             else if motion_background_removal_strategy opts = ''now-you-see-me''
             then capture_by_unhiding opts fl cv s1
             else if motion_background_removal_strategy opts = ''moving-object''
             then capture_by_subtracting opts fl cv s1
             else Some (Inl Exception, s1))
      in case outcome of
           None \<Rightarrow> None
         | Some (Inl e, s2) \<Rightarrow> Some (Inl e, s2)
         | Some (Inr (Frame_list frames), s2) \<Rightarrow>
             (case callback frames of
                None \<Rightarrow> None
              | Some (Inl e) \<Rightarrow> Some (Inl e, s2)
              | Some (Inr c) \<Rightarrow>
                  Some (Inr (), s2\<lparr>events := events s2 @ [Called c],
                                    later := later s2 @ [(Ready, 0.5)]\<rparr>))
         | Some (Inr (Seconds delay), s2) \<Rightarrow>
             Some (Inr (), s2\<lparr>later := later s2 @ [(Capture_frames_then callback, delay)]\<rparr>))"

text \<open>
  \<^verbatim>\<open>button_handler\<close> (lines 552-565) and \<^verbatim>\<open>keyboard_handler\<close> (lines 568-582).  The two
  callbacks stand for \<^verbatim>\<open>match_item\<close> and \<^verbatim>\<open>record_new_item\<close>.
\<close>

definition button_handler :: "options \<Rightarrow> float_ops \<Rightarrow> 'f cv2_ops \<Rightarrow> ('f list \<Rightarrow> (error + 'c) option)
    \<Rightarrow> ('f list \<Rightarrow> (error + 'c) option) \<Rightarrow> string \<Rightarrow> nat \<Rightarrow> ('f, 'c) sys
    \<Rightarrow> ((error + unit) \<times> ('f, 'c) sys) option" where
  "button_handler opts fl cv match_item_cb record_new_item_cb event pin s =
     (if busy s then Some (Inr (), s)
      else if event = ''press'' then Some (Inr (), s\<lparr>events := events s @ [Camera_start]\<rparr>)
      else if event = ''click'' then capture_frames_then opts fl cv match_item_cb s
      else if event = ''longpress'' then capture_frames_then opts fl cv record_new_item_cb s
      else Some (Inr (), s))"

definition keyboard_handler :: "options \<Rightarrow> float_ops \<Rightarrow> 'f cv2_ops \<Rightarrow> ('f list \<Rightarrow> (error + 'c) option)
    \<Rightarrow> ('f list \<Rightarrow> (error + 'c) option) \<Rightarrow> string option \<Rightarrow> ('f, 'c) sys
    \<Rightarrow> ((error + unit) \<times> ('f, 'c) sys) option" where
  "keyboard_handler opts fl cv match_item_cb record_new_item_cb key s =
     (if busy s then Some (Inr (), s)
      else if key = Some ''R'' \<or> key = Some ''r''
      then capture_frames_then opts fl cv record_new_item_cb s
      else if key = Some ''M'' \<or> key = Some ''m''
      then capture_frames_then opts fl cv match_item_cb s
      else if key = Some ''Q'' \<or> key = Some ''q'' then Some (Inl SystemExit, s)
      else Some (Inr (), s\<lparr>events := events s @ [Print_usage]\<rparr>))"

subsection \<open>Notions used in the statements\<close>

text \<open>
The acceptance test applied to every match after the first.
\<close>

definition acceptable :: "options \<Rightarrow> float_ops \<Rightarrow> real \<Rightarrow> 'i match_candidate \<Rightarrow> bool" where
  "acceptable opts fl best m \<longleftrightarrow>
     matching_score_threshold opts \<le> fst m
     \<and> float_mul fl best (matching_score_ratio opts) \<le> fst m"

text \<open>
A frame ends the scan: its query succeeds and its top score meets the threshold.
\<close>

definition good_enough :: "options \<Rightarrow> ('f \<Rightarrow> 'i match_candidate list option) \<Rightarrow> 'f \<Rightarrow> bool" where
  "good_enough opts db f =
     (case db f of
        Some (m # ms) \<Rightarrow> matching_score_threshold opts \<le> fst m
      | _ \<Rightarrow> False)"

text \<open>
The frames a scan gets to: those before the first good-enough frame, and that frame.
\<close>

definition consulted :: "options \<Rightarrow> ('f \<Rightarrow> 'i match_candidate list option) \<Rightarrow> 'f list \<Rightarrow> 'f list" where
  "consulted opts db frames =
     takeWhile (\<lambda>f. \<not> good_enough opts db f) frames
     @ take 1 (dropWhile (\<lambda>f. \<not> good_enough opts db f) frames)"

text \<open>
Reading a trace: the frames given to \<^verbatim>\<open>db.match\<close>, and the files played.
\<close>

fun queried_of :: "('f, 'i) match_event list \<Rightarrow> 'f list" where
  "queried_of [] = []"
| "queried_of (Db_match f # evs) = f # queried_of evs"
| "queried_of (_ # evs) = queried_of evs"

fun played_of :: "('f, 'i) match_event list \<Rightarrow> 'i audio_file list" where
  "played_of [] = []"
| "played_of (Playfile a # evs) = a # played_of evs"
| "played_of (_ # evs) = played_of evs"

text \<open>
  Frame \<open>i\<close> is the first of the richest: extraction succeeds on it, no frame has more
  features, and every earlier frame has fewer.
\<close>

definition richest_first :: "('f \<Rightarrow> 'k image_description option) \<Rightarrow> 'f list \<Rightarrow> nat \<Rightarrow> bool" where
  "richest_first fi frames i \<longleftrightarrow>
     i < length frames \<and> (\<exists>d. fi (frames ! i) = Some d
       \<and> (\<forall>j < length frames. \<forall>d'. fi (frames ! j) = Some d' \<longrightarrow>
             length (features d') \<le> length (features d))
       \<and> (\<forall>j < i. \<forall>d'. fi (frames ! j) = Some d' \<longrightarrow>
             length (features d') < length (features d)))"

text \<open>
The three strategy names that the orchestrator knows.
\<close>

definition known_strategy :: "string \<Rightarrow> bool" where
  "known_strategy name \<longleftrightarrow>
     name = ''keep-everything'' \<or> name = ''now-you-see-me'' \<or> name = ''moving-object''"

text \<open>
The calls of \<^verbatim>\<open>cv2.norm\<close> in a trace.
\<close>

fun norms_of :: "('f, 'c) sys_event list \<Rightarrow> ('f \<times> 'f) list" where
  "norms_of [] = []"
| "norms_of (Cv2_norm a b # evs) = (a, b) # norms_of evs"
| "norms_of (_ # evs) = norms_of evs"

text \<open>
  The state of the acquisition loop after it has captured the frames \<open>taken\<close>, one
  iteration for each.
\<close>

definition acquire_run :: "options \<Rightarrow> float_ops \<Rightarrow> 'f cv2_ops \<Rightarrow> int \<Rightarrow> 'f list \<Rightarrow> 'f acquisition" where
  "acquire_run opts fl cv expected taken =
     foldl (\<lambda>st frame. acquire_step opts fl cv expected frame st) acquire_init taken"

text \<open>
What the first call of \<^verbatim>\<open>capture_by_unhiding\<close> plays.
\<close>

definition phase1_cues :: "('f, 'c) sys_event list" where
  "phase1_cues = [Camera_start, Playfile_sys ''register_step1.wav'', Play SHUTTER_TONE,
                  Playfile_sys ''register_step2.wav'']"

subsection \<open>Test data\<close>

text \<open>
  The float arithmetic of the test runs.  Two of the products that occur in them are
  not the exact products: in double precision \<^verbatim>\<open>0.8 * 0.9\<close> is 0.7200000000000001 and
  \<^verbatim>\<open>0.91 * 0.9\<close> is 0.8190000000000001, as Python prints them.  The other product that
  occurs, \<^verbatim>\<open>12 * 0.5\<close>, is exact.
\<close>

definition double_mul :: "real \<Rightarrow> real \<Rightarrow> real" where
  "double_mul a b =
     (if a = 0.8 \<and> b = 0.9 then 0.7200000000000001
      else if a = 0.91 \<and> b = 0.9 then 0.8190000000000001
      else a * b)"

definition test_floats :: float_ops where
  "test_floats = \<lparr>float_mul = double_mul, float_of_int = of_int\<rparr>"

text \<open>
The thresholds of the end-to-end scenarios: score threshold 0.6, score ratio 0.9.
\<close>

definition scenario_options :: options where
  "scenario_options =
     \<lparr>matching_score_threshold = 0.6, matching_score_ratio = 0.9, matching_n_frames = 3,
      motion_skip_frames = 2, motion_stability_duration = 2, motion_stability_factor = 0.5,
      motion_background_removal_strategy = ''moving-object'',
      video_width = 4, video_height = 3, log_path = None\<rparr>"

text \<open>
  Five candidates: extraction fails on 1 and 2, candidate 3 has a top score of 0.7,
  candidates 4 and 5 would score higher.
\<close>

definition five_candidates_db :: "nat \<Rightarrow> nat match_candidate list option" where
  "five_candidates_db = map_of [(3, [(0.7, 10)]), (4, [(0.95, 11)]), (5, [(0.99, 12)])]"

text \<open>
Candidate 1 has one weak match; the query on candidate 2 succeeds with no match.
\<close>

definition empty_after_weak_db :: "nat \<Rightarrow> nat match_candidate list option" where
  "empty_after_weak_db = map_of [(1, [(0.3, 7)]), (2, [])]"

text \<open>
The two end-to-end scenarios: scores 0.91, 0.85, 0.40 and scores 0.65, 0.50.
\<close>

definition scenario_many_db :: "nat \<Rightarrow> nat match_candidate list option" where
  "scenario_many_db = map_of [(1, [(0.91, 10), (0.85, 11), (0.40, 12)])]"

definition scenario_single_db :: "nat \<Rightarrow> nat match_candidate list option" where
  "scenario_single_db = map_of [(1, [(0.65, 20), (0.50, 21)])]"

text \<open>
  Four candidates with descriptor counts: extraction fails on 1; 5, 12 and 8 features on
  2, 3 and 4.  Two recordings: an empty one, then one of 800 samples.
\<close>

definition four_candidates :: "nat \<Rightarrow> nat image_description option" where
  "four_candidates = map_of
     [(2, \<lparr>features = replicate 5 0\<rparr>), (3, \<lparr>features = replicate 12 0\<rparr>),
      (4, \<lparr>features = replicate 8 0\<rparr>)]"

definition recorded_ok :: "nat list list" where
  "recorded_ok = [[], replicate 800 0]"

text \<open>
  Frames are numbers (a brightness); the distance of two frames is the absolute
  difference.  With 4 by 3 pixels and factor 0.5 two frames are stable when they differ by
  at most 6.
\<close>

definition brightness_distance :: "nat \<Rightarrow> nat \<Rightarrow> real" where
  "brightness_distance a b = real (a - b) + real (b - a)"

definition test_cv2 :: "nat cv2_ops" where
  "test_cv2 = \<lparr>cv_norm = brightness_distance, cvtColor_BGR2BGRA = id,
     difference_object = (-), subtract_background = drop 2,
     subtract_background_noisy = drop 2\<rparr>"

definition idle_sys :: "nat list \<Rightarrow> (nat, unit) sys" where
  "idle_sys cam = \<lparr>busy = False, full_image_for_capture_by_unhiding = None, camera = cam,
     later = [], events = []\<rparr>"

text \<open>
  A camera feed for the moving-object strategy, and the three states of a
  reveal-by-difference capture: before the first call, between the calls, after the
  second call.
\<close>

definition shaken_sys :: "(nat, unit) sys" where
  "shaken_sys = idle_sys [10, 40, 80, 81, 82, 83, 84]"

definition hidden_sys :: "(nat, unit) sys" where
  "hidden_sys = \<lparr>busy = True, full_image_for_capture_by_unhiding = None,
     camera = [50, 20, 21, 22, 23], later = [], events = []\<rparr>"

definition revealing_sys :: "(nat, unit) sys" where
  "revealing_sys = \<lparr>busy = True, full_image_for_capture_by_unhiding = Some 50,
     camera = [20, 21, 22, 23], later = [],
     events = [Camera_start, Playfile_sys ''register_step1.wav'', Play SHUTTER_TONE,
               Playfile_sys ''register_step2.wav'']\<rparr>"

definition revealed_sys :: "(nat, unit) sys" where
  "revealed_sys = \<lparr>busy = True, full_image_for_capture_by_unhiding = None, camera = [23],
     later = [],
     events = [Camera_start, Playfile_sys ''register_step1.wav'', Play SHUTTER_TONE,
               Playfile_sys ''register_step2.wav'', Cv2_norm 50 20, Cv2_norm 20 21,
               Cv2_norm 21 22, Play_async SHUTTER_TONE]\<rparr>"

text \<open>
  A misspelt strategy name; the reveal-by-difference strategy with a stability duration
  of 0; the keep-everything strategy; a callback that does nothing, and one that raises.
\<close>

definition misspelt_options :: options where
  "misspelt_options = scenario_options\<lparr>motion_background_removal_strategy := ''moving-objects''\<rparr>"

definition impatient_options :: options where
  "impatient_options = scenario_options\<lparr>motion_background_removal_strategy := ''now-you-see-me'',
     motion_stability_duration := 0\<rparr>"

definition everything_options :: options where
  "everything_options = scenario_options\<lparr>motion_background_removal_strategy := ''keep-everything''\<rparr>"

definition no_callback :: "nat list \<Rightarrow> (error + unit) option" where
  "no_callback frames = Some (Inr ())"

definition raising_callback :: "nat list \<Rightarrow> (error + unit) option" where
  "raising_callback frames = Some (Inl IndexError)"

section \<open>Properties\<close>

subsection \<open>The acceptance policy\<close>

lemma pick_loop_takeWhile:
  "pick_loop opts fl best retval ms = retval @ takeWhile (acceptable opts fl best) ms"
  by (induction ms arbitrary: retval) (simp_all add: acceptable_def)

lemma pick_nonempty:
  "pick_only_accurate_matches opts fl (m # ms) =
     Inr (if matching_score_threshold opts \<le> fst m
          then m # takeWhile (acceptable opts fl (fst m)) ms else [])"
  by (simp add: pick_only_accurate_matches_def pick_loop_takeWhile)

lemma takeWhile_stops:
  "length (takeWhile P xs) < length xs \<Longrightarrow> \<not> P (xs ! length (takeWhile P xs))"
  by (simp add: nth_length_takeWhile)

text \<open>
  C1.  For a non-empty list of matches, \<^verbatim>\<open>pick_only_accurate_matches\<close> returns normally.  The
  result is empty when the best score \<^verbatim>\<open>matches[0][0]\<close> is below the threshold.  Otherwise
  it is \<^verbatim>\<open>matches[0]\<close> followed by the longest prefix of the remaining matches whose
  scores all reach both the threshold and \<^verbatim>\<open>best_score * matching_score_ratio\<close>, the
  product being the float that the program computes.  Hence every returned match
  reaches the threshold, the result is a prefix of the input, and when it is a proper
  non-empty prefix the match right after it fails the test: nothing behind the first
  failing match is returned.  This holds for every float arithmetic, and the list need
  not even be sorted.
\<close>

theorem pick_only_accurate_matches_policy:
  assumes "matches \<noteq> []"
  shows "\<exists>acc. pick_only_accurate_matches opts fl matches = Inr acc
     \<and> (fst (hd matches) < matching_score_threshold opts \<longrightarrow> acc = [])
     \<and> (matching_score_threshold opts \<le> fst (hd matches) \<longrightarrow>
          acc = hd matches # takeWhile (acceptable opts fl (fst (hd matches))) (tl matches))
     \<and> (\<forall>m \<in> set acc. matching_score_threshold opts \<le> fst m)
     \<and> prefix acc matches
     \<and> (acc \<noteq> [] \<and> length acc < length matches \<longrightarrow>
          \<not> acceptable opts fl (fst (hd matches)) (matches ! length acc))"
proof -
  obtain m ms where ms: "matches = m # ms" using assms by (cases matches) auto
  let ?tw = "takeWhile (acceptable opts fl (fst m)) ms"
  have a: "\<forall>x \<in> set ?tw. matching_score_threshold opts \<le> fst x"
    by (auto dest!: set_takeWhileD simp: acceptable_def)
  have b: "prefix ?tw ms" by (metis takeWhile_dropWhile_id prefixI)
  have c: "length ?tw < length ms \<Longrightarrow> \<not> acceptable opts fl (fst m) (ms ! length ?tw)"
    by (rule takeWhile_stops)
  show ?thesis
    using a b c by (auto simp: ms pick_nonempty)
qed

theorem pick_only_accurate_matches_policy_witness:
  "pick_only_accurate_matches scenario_options test_floats
       [(0.91, 1), (0.85, 2), (0.4, 3), (0.88, 4 :: nat)]
     = Inr [(0.91, 1), (0.85, 2)]
   \<and> pick_only_accurate_matches scenario_options test_floats [(0.8, 1), (0.72, 2 :: nat)]
     = Inr [(0.8, 1)]"
proof
  have "[(0.91, 1), (0.85, 2), (0.4, 3), (0.88, 4 :: nat)] \<noteq> []" by simp
  from pick_only_accurate_matches_policy [OF this, where opts = scenario_options
      and fl = test_floats]
  show "pick_only_accurate_matches scenario_options test_floats
       [(0.91, 1), (0.85, 2), (0.4, 3), (0.88, 4 :: nat)]
     = Inr [(0.91, 1), (0.85, 2)]"
    by (auto simp: scenario_options_def acceptable_def test_floats_def double_mul_def)
next
  have "[(0.8, 1), (0.72, 2 :: nat)] \<noteq> []" by simp
  from pick_only_accurate_matches_policy [OF this, where opts = scenario_options
      and fl = test_floats]
  show "pick_only_accurate_matches scenario_options test_floats [(0.8, 1), (0.72, 2 :: nat)]
     = Inr [(0.8, 1)]"
    by (auto simp: scenario_options_def acceptable_def test_floats_def double_mul_def)
qed

subsection \<open>Scanning the candidate frames\<close>

lemma scan_queried:
  "snd (snd (scan_frames opts db frames (m, i, q))) = q @ consulted opts db frames"
proof (induction frames arbitrary: m i q)
  case Nil
  then show ?case by (simp add: consulted_def)
next
  case (Cons f fs)
  show ?case
  proof (cases "db f")
    case None
    then show ?thesis using Cons[of m "Some f" "q @ [f]"]
      by (simp add: consulted_def good_enough_def)
  next
    case (Some ms)
    then show ?thesis using Cons[of ms "Some f" "q @ [f]"]
      by (cases ms) (auto simp add: consulted_def good_enough_def)
  qed
qed

lemma scan_matches:
  "fst (scan_frames opts db frames (m, i, q)) = last (m # List.map_filter db (consulted opts db frames))"
proof (induction frames arbitrary: m i q)
  case Nil
  then show ?case by (simp add: consulted_def List.map_filter_simps)
next
  case (Cons f fs)
  show ?case
  proof (cases "db f")
    case None
    then show ?thesis using Cons[of m "Some f" "q @ [f]"]
      by (simp add: consulted_def good_enough_def List.map_filter_simps)
  next
    case (Some ms)
    then show ?thesis using Cons[of ms "Some f" "q @ [f]"]
      by (cases ms) (auto simp add: consulted_def good_enough_def List.map_filter_simps)
  qed
qed

lemma queried_of_append: "queried_of (xs @ ys) = queried_of xs @ queried_of ys"
  by (induction xs rule: queried_of.induct) simp_all

lemma played_of_append: "played_of (xs @ ys) = played_of xs @ played_of ys"
  by (induction xs rule: played_of.induct) simp_all

lemma queried_of_Db_match: "queried_of (map Db_match q) = q"
  by (induction q) simp_all

lemma played_of_Db_match: "played_of (map Db_match q) = []"
  by (induction q) simp_all

lemma queried_of_play_each: "queried_of (play_each acc) = []"
  by (induction acc rule: play_each.induct) simp_all

lemma played_of_play_each: "played_of (play_each acc) = map (\<lambda>m. Audio_filename (snd m)) acc"
  by (induction acc rule: play_each.induct) simp_all

lemma queried_of_announce: "queried_of (announce acc) = []"
  by (simp add: announce_def queried_of_play_each split: prod.splits)

lemma queried_of_save: "queried_of (save_diagnostics opts ms i) = []"
  by (simp add: save_diagnostics_def split: option.splits list.splits prod.splits)

lemma played_of_save: "played_of (save_diagnostics opts ms i) = []"
  by (simp add: save_diagnostics_def split: option.splits list.splits prod.splits)

lemma pick_total: "ms \<noteq> [] \<Longrightarrow> \<exists>acc. pick_only_accurate_matches opts fl ms = Inr acc"
  by (cases ms) (simp_all add: pick_nonempty)

lemma match_item_unfold:
  assumes "scan_frames opts db frames ([], None, []) = (ms, i, q)"
  shows "(ms = [] \<and> match_item opts fl db frames =
            Inr (map Db_match q @ [Playfile (Sound ''nothing_recognized.wav'')]))
       \<or> (ms \<noteq> [] \<and> (\<exists>acc. pick_only_accurate_matches opts fl ms = Inr acc \<and>
            match_item opts fl db frames =
              Inr (map Db_match q @ announce acc @ save_diagnostics opts ms i)))"
proof (cases "ms = []")
  case True
  then show ?thesis using assms by (simp add: match_item_def)
next
  case False
  then obtain acc where p: "pick_only_accurate_matches opts fl ms = Inr acc"
    using pick_total by blast
  then show ?thesis using assms False by (simp add: match_item_def)
qed

lemma match_item_queried:
  "\<exists>evs. match_item opts fl db frames = Inr evs \<and> queried_of evs = consulted opts db frames"
proof -
  obtain ms i q where s: "scan_frames opts db frames ([], None, []) = (ms, i, q)"
    by (cases "scan_frames opts db frames ([], None, [])") auto
  have q: "q = consulted opts db frames"
    using scan_queried[of opts db frames "[]" None "[]"] s by simp
  show ?thesis
    using match_item_unfold[OF s, where fl = fl] q
    by (auto simp: queried_of_append queried_of_Db_match queried_of_announce queried_of_save)
qed

lemma consulted_all: "\<forall>f\<in>set frames. \<not> good_enough opts db f \<Longrightarrow> consulted opts db frames = frames"
  by (simp add: consulted_def takeWhile_eq_all_conv[THEN iffD2] dropWhile_eq_Nil_conv[THEN iffD2])

lemma consulted_stop:
  "\<forall>f\<in>set pre. \<not> good_enough opts db f \<Longrightarrow> good_enough opts db c \<Longrightarrow>
   consulted opts db (pre @ c # post) = pre @ [c]"
  by (simp add: consulted_def takeWhile_append2 dropWhile_append2)

text \<open>
  C2.  \<^verbatim>\<open>match_item\<close> passes the candidate frames to \<^verbatim>\<open>db.match\<close> in capture order and
  stops with the first frame whose query succeeds with a top score that meets the
  threshold: the frames queried are exactly those before that frame and that frame
  (all frames when there is none).  A frame on which extraction fails does not end the
  scan.  In particular, when extraction fails on every frame before candidate \<open>c\<close> and
  the top score of \<open>c\<close> meets the threshold, no frame after \<open>c\<close> is queried.
\<close>

theorem match_item_stops_at_first_good:
  "\<exists>evs. match_item opts fl db frames = Inr evs
     \<and> queried_of evs = consulted opts db frames
     \<and> ((\<forall>f\<in>set frames. \<not> good_enough opts db f) \<longrightarrow> queried_of evs = frames)
     \<and> (\<forall>pre c post. frames = pre @ c # post \<and> (\<forall>f\<in>set pre. \<not> good_enough opts db f)
            \<and> good_enough opts db c \<longrightarrow> queried_of evs = pre @ [c])
     \<and> (\<forall>pre c post m ms. frames = pre @ c # post \<and> (\<forall>f\<in>set pre. db f = None)
            \<and> db c = Some (m # ms) \<and> matching_score_threshold opts \<le> fst m
          \<longrightarrow> queried_of evs = pre @ [c])"
proof -
  obtain evs where e: "match_item opts fl db frames = Inr evs"
      "queried_of evs = consulted opts db frames"
    using match_item_queried by blast
  have 1: "(\<forall>f\<in>set frames. \<not> good_enough opts db f) \<longrightarrow> queried_of evs = frames"
    using e(2) consulted_all[of frames opts db] by simp
  have 2: "\<forall>pre c post. frames = pre @ c # post \<and> (\<forall>f\<in>set pre. \<not> good_enough opts db f)
            \<and> good_enough opts db c \<longrightarrow> queried_of evs = pre @ [c]"
    using e(2) by (simp add: consulted_stop)
  have 3: "\<forall>pre c post m ms. frames = pre @ c # post \<and> (\<forall>f\<in>set pre. db f = None)
            \<and> db c = Some (m # ms) \<and> matching_score_threshold opts \<le> fst m
          \<longrightarrow> queried_of evs = pre @ [c]"
  proof (intro allI impI)
    fix pre c post m ms
    assume h: "frames = pre @ c # post \<and> (\<forall>f\<in>set pre. db f = None)
            \<and> db c = Some (m # ms) \<and> matching_score_threshold opts \<le> fst m"
    then have "\<forall>f\<in>set pre. \<not> good_enough opts db f" "good_enough opts db c"
      by (simp_all add: good_enough_def)
    then show "queried_of evs = pre @ [c]" using e(2) h by (simp add: consulted_stop)
  qed
  show ?thesis using e 1 2 3 by (intro exI[of _ evs] conjI)
qed

theorem match_item_stops_at_first_good_witness:
  "\<exists>evs. match_item scenario_options test_floats five_candidates_db [1, 2, 3, 4, 5] = Inr evs
     \<and> queried_of evs = [1, 2, 3]"
proof -
  obtain evs where e: "match_item scenario_options test_floats five_candidates_db [1, 2, 3, 4, 5] = Inr evs"
    and p: "\<forall>pre c post m ms. [1, 2, 3, 4, 5] = pre @ c # post
            \<and> (\<forall>f\<in>set pre. five_candidates_db f = None)
            \<and> five_candidates_db c = Some (m # ms)
            \<and> matching_score_threshold scenario_options \<le> fst m
          \<longrightarrow> queried_of evs = pre @ [c]"
    using match_item_stops_at_first_good [where opts = scenario_options and fl = test_floats
        and db = five_candidates_db and frames = "[1, 2, 3, 4, 5]"]
    by blast
  have "[1, 2, 3, 4, 5] = [1, 2] @ 3 # [4, 5] \<and> (\<forall>f\<in>set [1, 2]. five_candidates_db f = None)
      \<and> five_candidates_db 3 = Some ((0.7, 10) # [])
      \<and> matching_score_threshold scenario_options \<le> fst (0.7 :: real, 10 :: nat)"
    by (simp add: five_candidates_db_def scenario_options_def)
  then have "queried_of evs = [1, 2] @ [3]"
    by (rule p[rule_format, of "[1, 2]" 3 "[4, 5]" "(0.7, 10)" "[]"])
  then show ?thesis using e by simp
qed

subsection \<open>The nothing-recognized cue\<close>

lemma set_consulted: "set (consulted opts db frames) \<subseteq> set frames"
  by (auto simp: consulted_def dest: set_takeWhileD in_set_takeD set_dropWhileD)

lemma map_filter_all_empty:
  "\<forall>f\<in>set fs. db f = None \<or> db f = Some [] \<Longrightarrow> last ([] # List.map_filter db fs) = []"
proof -
  assume a: "\<forall>f\<in>set fs. db f = None \<or> db f = Some []"
  have "set (List.map_filter db fs) \<subseteq> {[]}"
    using a by (auto simp: List.map_filter_def)
  then show ?thesis
    by (cases "List.map_filter db fs = []") (auto dest: last_in_set)
qed

lemma map_filter_nonempty_last:
  assumes "\<forall>f\<in>set fs. db f \<noteq> Some []" "\<exists>f\<in>set fs. db f \<noteq> None"
  shows "last ([] # List.map_filter db fs) \<noteq> []"
proof -
  have ne: "List.map_filter db fs \<noteq> []"
    using assms(2) by (auto simp: List.map_filter_def filter_empty_conv)
  have "[] \<notin> set (List.map_filter db fs)"
    using assms(1) by (auto simp: List.map_filter_def)
  moreover have "last (List.map_filter db fs) \<in> set (List.map_filter db fs)"
    by (rule last_in_set[OF ne])
  ultimately have "last (List.map_filter db fs) \<noteq> []" by metis
  then show ?thesis by (simp add: ne)
qed

lemma consulted_has_extractable:
  assumes "\<exists>f\<in>set frames. db f \<noteq> None"
  shows "\<exists>f\<in>set (consulted opts db frames). db f \<noteq> None"
proof (cases "\<forall>f\<in>set frames. \<not> good_enough opts db f")
  case True
  then show ?thesis using assms by (simp add: consulted_all)
next
  case False
  then obtain pre c post where s: "frames = pre @ c # post" "good_enough opts db c"
      "\<forall>f\<in>set pre. \<not> good_enough opts db f"
    using split_list_first_prop[of frames "good_enough opts db"] by blast
  then have "consulted opts db frames = pre @ [c]" by (simp add: consulted_stop)
  moreover have "db c \<noteq> None"
    using s(2) by (auto simp: good_enough_def split: option.splits)
  ultimately show ?thesis by auto
qed

lemma nothing_not_announced:
  "Sound ''nothing_recognized.wav'' \<notin> set (played_of (announce acc))"
  by (auto simp: announce_def played_of_play_each split: prod.splits)

lemma match_item_final:
  "\<exists>evs. match_item opts fl db frames = Inr evs
     \<and> queried_of evs = consulted opts db frames
     \<and> (last ([] # List.map_filter db (consulted opts db frames)) = [] \<longrightarrow>
          evs = map Db_match (consulted opts db frames) @ [Playfile (Sound ''nothing_recognized.wav'')])
     \<and> (last ([] # List.map_filter db (consulted opts db frames)) \<noteq> [] \<longrightarrow>
          Sound ''nothing_recognized.wav'' \<notin> set (played_of evs))"
proof -
  obtain ms i q where s: "scan_frames opts db frames ([], None, []) = (ms, i, q)"
    by (cases "scan_frames opts db frames ([], None, [])") auto
  have q: "q = consulted opts db frames"
    using scan_queried[of opts db frames "[]" None "[]"] s by simp
  have m: "ms = last ([] # List.map_filter db (consulted opts db frames))"
    using scan_matches[of opts db frames "[]" None "[]"] s by simp
  show ?thesis
    using match_item_unfold[OF s, where fl = fl] q m
    by (auto simp: queried_of_append queried_of_Db_match queried_of_announce queried_of_save
        played_of_append played_of_Db_match played_of_save nothing_not_announced)
qed

text \<open>
  C3, as stated, fails: \<^verbatim>\<open>matches\<close> is overwritten by every query that succeeds, so a
  later candidate whose query returns the empty list erases the matches of an earlier
  one.  Here candidate 1 yields a match (score 0.3, below the threshold, so the scan goes
  on), candidate 2 yields the empty list, and the cue is played.
\<close>

theorem match_item_cue_despite_matches:
  "empty_after_weak_db 1 = Some [(0.3, 7)] \<and>
   match_item scenario_options test_floats empty_after_weak_db [1, 2] =
     Inr [Db_match 1, Db_match 2, Playfile (Sound ''nothing_recognized.wav'')]"
  by (simp add: empty_after_weak_db_def match_item_def scenario_options_def)

text \<open>
  C3, amended.  \<^verbatim>\<open>match_item\<close> plays the nothing-recognized cue exactly when the list
  \<^verbatim>\<open>matches\<close> is empty at the end of the scan: no queried candidate passed extraction,
  or the last queried candidate that passed extraction returned the empty list.  When
  it plays the cue it does nothing else after the queries.  So the cue is played when no
  candidate yields any match, and it is not played when some candidate passes extraction
  and no candidate returns the empty list.
\<close>

theorem match_item_nothing_recognized:
  "\<exists>evs. match_item opts fl db frames = Inr evs
     \<and> (Sound ''nothing_recognized.wav'' \<in> set (played_of evs) \<longleftrightarrow>
          last ([] # List.map_filter db (queried_of evs)) = [])
     \<and> (Sound ''nothing_recognized.wav'' \<in> set (played_of evs) \<longrightarrow>
          evs = map Db_match (queried_of evs) @ [Playfile (Sound ''nothing_recognized.wav'')])
     \<and> ((\<forall>f\<in>set frames. db f = None \<or> db f = Some []) \<longrightarrow>
          Sound ''nothing_recognized.wav'' \<in> set (played_of evs))
     \<and> ((\<exists>f\<in>set frames. db f \<noteq> None) \<and> (\<forall>f\<in>set frames. db f \<noteq> Some []) \<longrightarrow>
          Sound ''nothing_recognized.wav'' \<notin> set (played_of evs))"
proof -
  obtain evs where e: "match_item opts fl db frames = Inr evs"
    "queried_of evs = consulted opts db frames"
    "last ([] # List.map_filter db (consulted opts db frames)) = [] \<longrightarrow>
          evs = map Db_match (consulted opts db frames) @ [Playfile (Sound ''nothing_recognized.wav'')]"
    "last ([] # List.map_filter db (consulted opts db frames)) \<noteq> [] \<longrightarrow>
          Sound ''nothing_recognized.wav'' \<notin> set (played_of evs)"
    using match_item_final[where opts = opts and fl = fl and db = db and frames = frames] by blast
  let ?cue = "Sound ''nothing_recognized.wav'' \<in> set (played_of evs)"
  let ?empty = "last ([] # List.map_filter db (consulted opts db frames)) = []"
  have a: "?empty \<Longrightarrow> ?cue"
    using e(3) by (auto simp: played_of_append played_of_Db_match)
  have b: "?cue \<Longrightarrow> ?empty" using e(4) by blast
  have c: "(\<forall>f\<in>set frames. db f = None \<or> db f = Some []) \<Longrightarrow> ?empty"
    using set_consulted[of opts db frames] by (intro map_filter_all_empty) blast
  have d: "(\<exists>f\<in>set frames. db f \<noteq> None) \<and> (\<forall>f\<in>set frames. db f \<noteq> Some []) \<Longrightarrow> \<not> ?empty"
    using set_consulted[of opts db frames] consulted_has_extractable[of frames db opts]
    by (intro map_filter_nonempty_last) blast+
  have q: "queried_of evs = consulted opts db frames" by (rule e(2))
  have 1: "?cue \<longleftrightarrow> last ([] # List.map_filter db (queried_of evs)) = []"
    unfolding q using a b by blast
  have 2: "?cue \<longrightarrow>
          evs = map Db_match (queried_of evs) @ [Playfile (Sound ''nothing_recognized.wav'')]"
    unfolding q using b e(3) by blast
  have 3: "(\<forall>f\<in>set frames. db f = None \<or> db f = Some []) \<longrightarrow> ?cue"
    using a c by blast
  have 4: "(\<exists>f\<in>set frames. db f \<noteq> None) \<and> (\<forall>f\<in>set frames. db f \<noteq> Some []) \<longrightarrow> \<not> ?cue"
    using b d by blast
  show ?thesis
    using e(1) 1 2 3 4 by (intro exI[of _ evs] conjI)
qed

theorem match_item_nothing_recognized_witness:
  "(\<exists>evs. match_item scenario_options test_floats five_candidates_db [1, 2, 3, 4, 5] = Inr evs
      \<and> Sound ''nothing_recognized.wav'' \<notin> set (played_of evs))
   \<and> (\<exists>evs. match_item scenario_options test_floats (map_of [(2 :: nat, [] :: nat match_candidate list)]) [1, 2] = Inr evs
      \<and> Sound ''nothing_recognized.wav'' \<in> set (played_of evs))"
proof
  have "(\<exists>f\<in>set [1, 2, 3, 4, 5]. five_candidates_db f \<noteq> None)
      \<and> (\<forall>f\<in>set [1, 2, 3, 4, 5]. five_candidates_db f \<noteq> Some [])"
    by (simp add: five_candidates_db_def)
  then show "\<exists>evs. match_item scenario_options test_floats five_candidates_db [1, 2, 3, 4, 5] = Inr evs
      \<and> Sound ''nothing_recognized.wav'' \<notin> set (played_of evs)"
    using match_item_nothing_recognized [where opts = scenario_options and fl = test_floats
        and db = five_candidates_db and frames = "[1, 2, 3, 4, 5]"]
    by blast
next
  let ?db = "map_of [(2 :: nat, [] :: nat match_candidate list)]"
  have "\<forall>f\<in>set [1, 2]. ?db f = None \<or> ?db f = Some []"
    by simp
  then show "\<exists>evs. match_item scenario_options test_floats ?db [1, 2] = Inr evs
      \<and> Sound ''nothing_recognized.wav'' \<in> set (played_of evs)"
    using match_item_nothing_recognized [where opts = scenario_options and fl = test_floats
        and db = ?db and frames = "[1, 2]"]
    by blast
qed

subsection \<open>Announcing the accurate matches\<close>

lemma pick_sorted:
  assumes "sorted_wrt (\<lambda>a b. fst b \<le> fst a) ms" "pick_only_accurate_matches opts fl ms = Inr acc"
  shows "sorted_wrt (\<lambda>a b. fst b \<le> fst a) acc"
proof (cases ms)
  case Nil
  then show ?thesis using assms(2)
    by (auto simp: pick_only_accurate_matches_def split: if_splits)
next
  case (Cons m rest)
  then obtain zs where "ms = acc @ zs"
    using pick_only_accurate_matches_policy[where matches = ms and opts = opts and fl = fl] assms(2) by (auto simp: prefix_def)
  then show ?thesis using assms(1) by (simp add: sorted_wrt_append)
qed

text \<open>
  C4.  With no accurate match \<^verbatim>\<open>match_item\<close> plays \<^verbatim>\<open>noitem.wav\<close>; with exactly one it
  plays that item's audio label and nothing else; with two or more it plays
  \<^verbatim>\<open>multipleitems.wav\<close> and then the label of every accurate match, in the order of the
  list, which is descending by score when the database's list is.  Whenever the scan
  ends with a non-empty list, what \<^verbatim>\<open>match_item\<close> plays is this announcement of the result
  of \<^verbatim>\<open>pick_only_accurate_matches\<close>.  Scores 0.91, 0.85, 0.40 with threshold 0.6 and ratio
  0.9 give the multiple-items cue and the first two labels, in every float arithmetic in
  which 0.91 times 0.9 is at most 0.85; scores 0.65, 0.50 give the single label and no
  cue, in every float arithmetic.
\<close>

theorem match_item_announces:
  "(length acc = 0 \<longrightarrow>
      played_of (announce acc :: ('f, 'i) match_event list) = [Sound ''noitem.wav''])
   \<and> (length acc = 1 \<longrightarrow>
      played_of (announce acc :: ('f, 'i) match_event list) = [Audio_filename (snd (hd acc))])
   \<and> (2 \<le> length acc \<longrightarrow>
      played_of (announce acc :: ('f, 'i) match_event list) =
        Sound ''multipleitems.wav'' # map (\<lambda>m. Audio_filename (snd m)) acc)
   \<and> (\<forall>ms img q. scan_frames opts db frames ([], None, []) = (ms, img, q) \<and> ms \<noteq> [] \<longrightarrow>
        (\<exists>accurate evs. pick_only_accurate_matches opts fl ms = Inr accurate
           \<and> (sorted_wrt (\<lambda>a b. fst b \<le> fst a) ms \<longrightarrow> sorted_wrt (\<lambda>a b. fst b \<le> fst a) accurate)
           \<and> match_item opts fl db (frames :: 'f list) = Inr evs
           \<and> played_of evs = played_of (announce accurate :: ('f, 'i) match_event list)))
   \<and> (float_mul fl 0.91 0.9 \<le> 0.85 \<longrightarrow>
        match_item scenario_options fl scenario_many_db [1] =
          Inr [Db_match 1, Playfile (Sound ''multipleitems.wav''),
               Playfile (Audio_filename 10), Sleep 0.2, Playfile (Audio_filename 11), Sleep 0.2])
   \<and> match_item scenario_options fl scenario_single_db [1] =
        Inr [Db_match 1, Playfile (Audio_filename 20)]"
proof (intro conjI allI impI)
  show "played_of (announce acc :: ('f, 'i) match_event list) = [Sound ''noitem.wav'']"
    if "length acc = 0" using that by (simp add: announce_def)
  show "played_of (announce acc :: ('f, 'i) match_event list) = [Audio_filename (snd (hd acc))]"
    if "length acc = 1" using that by (simp add: announce_def split: prod.splits)
  show "played_of (announce acc :: ('f, 'i) match_event list) =
        Sound ''multipleitems.wav'' # map (\<lambda>m. Audio_filename (snd m)) acc"
    if "2 \<le> length acc" using that by (auto simp add: announce_def played_of_play_each)
  show "\<exists>accurate evs. pick_only_accurate_matches opts fl ms = Inr accurate
           \<and> (sorted_wrt (\<lambda>a b. fst b \<le> fst a) ms \<longrightarrow> sorted_wrt (\<lambda>a b. fst b \<le> fst a) accurate)
           \<and> match_item opts fl db frames = Inr evs
           \<and> played_of evs = played_of (announce accurate :: ('f, 'i) match_event list)"
    if h: "scan_frames opts db frames ([], None, []) = (ms, img, q) \<and> ms \<noteq> []"
    for ms img q
  proof -
    from h have s: "scan_frames opts db frames ([], None, []) = (ms, img, q)" and ne: "ms \<noteq> []"
      by simp_all
    obtain accurate where a: "pick_only_accurate_matches opts fl ms = Inr accurate"
        "match_item opts fl db frames =
              Inr (map Db_match q @ announce accurate @ save_diagnostics opts ms img)"
      using match_item_unfold[OF s] ne by blast
    have "played_of (map Db_match q @ announce accurate @ save_diagnostics opts ms img)
        = played_of (announce accurate :: ('f, 'i) match_event list)"
      by (simp add: played_of_append played_of_Db_match played_of_save)
    then show ?thesis using a pick_sorted[where ms = ms and opts = opts and fl = fl and acc = accurate] by blast
  qed
  show "match_item scenario_options fl scenario_many_db [1] =
        Inr [Db_match 1, Playfile (Sound ''multipleitems.wav''),
             Playfile (Audio_filename 10), Sleep 0.2, Playfile (Audio_filename 11), Sleep 0.2]"
    if "float_mul fl 0.91 0.9 \<le> 0.85"
    using that
    by (simp add: match_item_def scenario_options_def scenario_many_db_def
        pick_only_accurate_matches_def announce_def save_diagnostics_def)
  show "match_item scenario_options fl scenario_single_db [1] =
        Inr [Db_match 1, Playfile (Audio_filename 20)]"
    by (simp add: match_item_def scenario_options_def scenario_single_db_def
        pick_only_accurate_matches_def announce_def save_diagnostics_def)
qed

theorem match_item_announces_witness:
  "played_of (announce [(0.91, 10), (0.85, 11 :: nat)] :: (nat, nat) match_event list) =
     [Sound ''multipleitems.wav'', Audio_filename 10, Audio_filename 11]
   \<and> played_of (announce [(0.65, 20 :: nat)] :: (nat, nat) match_event list) = [Audio_filename 20]
   \<and> played_of (announce ([] :: nat match_candidate list) :: (nat, nat) match_event list)
       = [Sound ''noitem.wav'']
   \<and> match_item scenario_options test_floats scenario_many_db [1] =
        Inr [Db_match 1, Playfile (Sound ''multipleitems.wav''),
             Playfile (Audio_filename 10), Sleep 0.2, Playfile (Audio_filename 11), Sleep 0.2]"
proof -
  note t = match_item_announces [where ?'f = nat and ?'i = nat and fl = test_floats]
  have h: "float_mul test_floats 0.91 0.9 \<le> 0.85"
    by (simp add: test_floats_def double_mul_def)
  have 1: "played_of (announce [(0.91, 10), (0.85, 11 :: nat)] :: (nat, nat) match_event list) =
     [Sound ''multipleitems.wav'', Audio_filename 10, Audio_filename 11]"
    using t [where acc = "[(0.91, 10), (0.85, 11 :: nat)]"] by simp
  have 2: "played_of (announce [(0.65, 20 :: nat)] :: (nat, nat) match_event list)
      = [Audio_filename 20]"
    using t [where acc = "[(0.65, 20 :: nat)]"] by simp
  have 3: "played_of (announce ([] :: nat match_candidate list) :: (nat, nat) match_event list)
       = [Sound ''noitem.wav'']"
    using t [where acc = "[] :: nat match_candidate list"] by simp
  have 4: "match_item scenario_options test_floats scenario_many_db [1] =
        Inr [Db_match 1, Playfile (Sound ''multipleitems.wav''),
             Playfile (Audio_filename 10), Sleep 0.2, Playfile (Audio_filename 11), Sleep 0.2]"
    using t [where acc = "[]"] h by blast
  show ?thesis using 1 2 3 4 by blast
qed

subsection \<open>Choosing the frame to record\<close>

lemma choose_best_append:
  "choose_best fi (xs @ ys) st = choose_best fi ys (choose_best fi xs st)"
  by (induction xs arbitrary: st) simp_all

lemma choose_best_inv:
  "(case choose_best fi frames (None, None) of
      (None, bi) \<Rightarrow> bi = None \<and> (\<forall>f\<in>set frames. fi f = None)
    | (Some d, bi) \<Rightarrow> \<exists>i. richest_first fi frames i \<and> bi = Some (frames ! i) \<and> fi (frames ! i) = Some d)"
proof (induction frames rule: rev_induct)
  case Nil
  then show ?case by simp
next
  case (snoc x xs)
  obtain bd bi where st: "choose_best fi xs (None, None) = (bd, bi)"
    by (cases "choose_best fi xs (None, None)") auto
  show ?case
  proof (cases "fi x")
    case None
    then show ?thesis using snoc st
      by (auto simp: choose_best_append choose_step_def richest_first_def nth_append less_Suc_eq
          split: option.splits)
  next
    case (Some d)
    show ?thesis
    proof (cases bd)
      case None
      then show ?thesis using snoc st Some
        apply (simp add: choose_best_append choose_step_def)
        apply (rule exI[of _ "length xs"])
        apply (auto simp: richest_first_def nth_append less_Suc_eq)
        done
    next
      case b: (Some b)
      then obtain i where i: "richest_first fi xs i" "bi = Some (xs ! i)" "fi (xs ! i) = Some b"
        using snoc st by auto
      show ?thesis
      proof (cases "length (features b) < length (features d)")
        case True
        have "richest_first fi (xs @ [x]) (length xs)"
          using i True Some
          by (fastforce simp: richest_first_def nth_append less_Suc_eq)
        then show ?thesis using st b Some True
          by (auto simp: choose_best_append choose_step_def)
      next
        case False
        have "richest_first fi (xs @ [x]) i"
          using i False Some
          by (fastforce simp: richest_first_def nth_append less_Suc_eq)
        moreover have "(xs @ [x]) ! i = xs ! i"
          using i(1) by (simp add: richest_first_def nth_append)
        ultimately show ?thesis using st b Some False i
          by (auto simp: choose_best_append choose_step_def)
      qed
    qed
  qed
qed

lemma choose_step_fail: "fi x = None \<Longrightarrow> choose_step fi x st = st"
  by (cases st) (simp add: choose_step_def)

lemma choose_best_filter:
  "choose_best fi frames st = choose_best fi (filter (\<lambda>f. fi f \<noteq> None) frames) st"
  by (induction frames arbitrary: st) (auto simp: choose_step_fail)

lemma record_loop_returns:
  "\<exists>a\<in>set recordings. 800 \<le> length a \<Longrightarrow>
   \<exists>evs' audio. record_loop recordings evs = Some (evs', audio) \<and> 800 \<le> length audio"
  by (induction recordings arbitrary: evs) (auto simp: Let_def)

lemma richest_first_unique:
  "richest_first fi frames i \<Longrightarrow> richest_first fi frames j \<Longrightarrow> i = j"
proof (rule ccontr)
  assume a: "richest_first fi frames i" "richest_first fi frames j" "i \<noteq> j"
  then consider "i < j" | "j < i" by linarith
  then show False
  proof cases
    case 1
    then show False using a(1,2) unfolding richest_first_def
      by (metis less_irrefl order_less_le_trans)
  next
    case 2
    then show False using a(1,2) unfolding richest_first_def
      by (metis less_irrefl order_less_le_trans)
  qed
qed

text \<open>
  C5.  When extraction fails on every candidate, \<^verbatim>\<open>record_new_item\<close> plays the
  nothing-recognized cue and does nothing else: no item is added.  When it succeeds on
  some candidate and the recording loop ends, the item added to the database is the
  first of the richest frames, with its description: no frame has more features and
  every earlier frame has fewer.  That frame is unique.  Candidates on which extraction
  fails change nothing: the run is that of the list without them.  The function returns
  as soon as some recording has 800 samples.  For the counts fails, 5, 12, 8 the frame
  with 12 features is added.
\<close>

theorem record_new_item_selects_richest:
  "((\<forall>f\<in>set frames. from_image f = None) \<longrightarrow>
      record_new_item (from_image :: 'f \<Rightarrow> 'k image_description option)
          (recordings :: 'a list list) frames
        = Some [Playfile_sound ''nothing_recognized.wav''])
   \<and> ((\<exists>f\<in>set frames. from_image f \<noteq> None) \<and> record_loop recordings [] = Some (evs, audio) \<longrightarrow>
        (\<exists>i d. richest_first from_image frames i \<and> from_image (frames ! i) = Some d
           \<and> record_new_item from_image recordings frames
               = Some (evs @ [Db_add (Some (frames ! i)) audio d,
                              Playfile_sound ''registered.wav'', Play_audio audio])))
   \<and> (richest_first from_image frames i \<and> richest_first from_image frames j \<longrightarrow> i = j)
   \<and> record_new_item from_image recordings frames
        = record_new_item from_image recordings (filter (\<lambda>f. from_image f \<noteq> None) frames)
   \<and> ((\<exists>a\<in>set recordings. 800 \<le> length a) \<longrightarrow>
        record_new_item from_image recordings frames \<noteq> None)
   \<and> record_new_item four_candidates recorded_ok [1, 2, 3, 4]
        = Some [Playfile_sound ''afterthetone.wav'', Play_tone START_RECORDING_TONE, Record_audio,
                Play_tone STOP_RECORDING_TONE, Playfile_sound ''nosound.wav'',
                Playfile_sound ''afterthetone.wav'', Play_tone START_RECORDING_TONE, Record_audio,
                Play_tone STOP_RECORDING_TONE,
                Db_add (Some 3) (replicate 800 0) \<lparr>features = replicate 12 0\<rparr>,
                Playfile_sound ''registered.wav'', Play_audio (replicate 800 0)]"
proof (intro conjI impI)
  show "record_new_item from_image recordings frames
        = Some [Playfile_sound ''nothing_recognized.wav'']"
    if "\<forall>f\<in>set frames. from_image f = None"
    using that choose_best_inv[where fi = from_image and frames = frames]
    by (auto simp: record_new_item_def richest_first_def split: option.splits prod.splits)
  show "\<exists>i d. richest_first from_image frames i \<and> from_image (frames ! i) = Some d
           \<and> record_new_item from_image recordings frames
               = Some (evs @ [Db_add (Some (frames ! i)) audio d,
                              Playfile_sound ''registered.wav'', Play_audio audio])"
    if "(\<exists>f\<in>set frames. from_image f \<noteq> None) \<and> record_loop recordings [] = Some (evs, audio)"
    using that choose_best_inv[where fi = from_image and frames = frames]
    by (auto simp: record_new_item_def split: option.splits prod.splits)
  show "i = j" if "richest_first from_image frames i \<and> richest_first from_image frames j"
    using that richest_first_unique by blast
  show "record_new_item from_image recordings frames
        = record_new_item from_image recordings (filter (\<lambda>f. from_image f \<noteq> None) frames)"
    using choose_best_filter[where fi = from_image and frames = frames and st = "(None, None)"]
    by (simp add: record_new_item_def)
  show "record_new_item from_image recordings frames \<noteq> None"
    if "\<exists>a\<in>set recordings. 800 \<le> length a"
    using record_loop_returns[OF that, where evs = "[] :: ('f, 'k, 'a) record_event list"]
    by (auto simp: record_new_item_def split: option.splits prod.splits)
  show "record_new_item four_candidates recorded_ok [1, 2, 3, 4]
        = Some [Playfile_sound ''afterthetone.wav'', Play_tone START_RECORDING_TONE, Record_audio,
                Play_tone STOP_RECORDING_TONE, Playfile_sound ''nosound.wav'',
                Playfile_sound ''afterthetone.wav'', Play_tone START_RECORDING_TONE, Record_audio,
                Play_tone STOP_RECORDING_TONE,
                Db_add (Some 3) (replicate 800 0) \<lparr>features = replicate 12 0\<rparr>,
                Playfile_sound ''registered.wav'', Play_audio (replicate 800 0)]"
    by (simp add: four_candidates_def choose_step_def record_new_item_def recorded_ok_def)
qed

theorem record_new_item_selects_richest_witness:
  "record_new_item four_candidates recorded_ok [1, 5]
       = Some [Playfile_sound ''nothing_recognized.wav'']
   \<and> record_new_item four_candidates recorded_ok [1, 2, 3, 4] \<noteq> None"
proof -
  have h1: "\<forall>f\<in>set [1, 5 :: nat]. four_candidates f = None"
    by (simp add: four_candidates_def)
  have h2: "\<exists>a\<in>set recorded_ok. 800 \<le> length a"
    by (simp add: recorded_ok_def)
  have "record_new_item four_candidates recorded_ok [1, 5]
       = Some [Playfile_sound ''nothing_recognized.wav'']"
    using h1 record_new_item_selects_richest
      [where frames = "[1, 5]" and from_image = four_candidates and recordings = recorded_ok]
    by blast
  moreover have "record_new_item four_candidates recorded_ok [1, 2, 3, 4] \<noteq> None"
    using h2 record_new_item_selects_richest
      [where frames = "[1, 2, 3, 4]" and from_image = four_candidates and recordings = recorded_ok]
    by blast
  ultimately show ?thesis by blast
qed

subsection \<open>The acquisition loops\<close>

lemma norms_of_append: "norms_of (xs @ ys) = norms_of xs @ norms_of ys"
  by (induction xs rule: norms_of.induct) simp_all

lemma norms_of_norm_events: "norms_of (norm_events calls) = calls"
  by (induction calls) (auto simp: norm_events_def)

lemma acquire_loop_foldl:
  "acquire_loop opts fl cv e cam st = Some (st', rest) \<Longrightarrow>
   \<exists>taken. cam = taken @ rest
     \<and> st' = foldl (\<lambda>st frame. acquire_step opts fl cv e frame st) st taken"
proof (induction cam arbitrary: st)
  case Nil
  then show ?case by (simp split: if_splits)
next
  case (Cons f cam)
  show ?case
  proof (cases "still_moving opts e st")
    case True
    then have "acquire_loop opts fl cv e cam (acquire_step opts fl cv e f st) = Some (st', rest)"
      using Cons.prems by simp
    then obtain taken where "cam = taken @ rest"
        "st' = foldl (\<lambda>st frame. acquire_step opts fl cv e frame st) (acquire_step opts fl cv e f st) taken"
      using Cons.IH by blast
    then show ?thesis by (intro exI[of _ "f # taken"]) simp
  next
    case False
    then show ?thesis using Cons.prems by (intro exI[of _ "[]"]) simp
  qed
qed

lemma acquire_step_previous: "previous_frame (acquire_step opts fl cv e f st) = Some f"
  by (simp add: acquire_step_def Let_def split: option.splits)

lemma acquire_step_norms_some:
  "previous_frame st = Some p \<Longrightarrow>
   norm_calls (acquire_step opts fl cv e f st) = norm_calls st @ [(p, f)]"
  by (simp add: acquire_step_def Let_def)

lemma acquire_step_norms_none:
  "previous_frame st = None \<Longrightarrow> norm_calls (acquire_step opts fl cv e f st) = norm_calls st"
  by (simp add: acquire_step_def Let_def)

lemma acquire_foldl_norms:
  "previous_frame st = Some p \<Longrightarrow>
   norm_calls (foldl (\<lambda>st frame. acquire_step opts fl cv e frame st) st taken)
     = norm_calls st @ zip (p # taken) taken"
proof (induction taken arbitrary: st p)
  case Nil
  then show ?case by simp
next
  case (Cons f taken)
  show ?case
    using Cons.IH[where st = "acquire_step opts fl cv e f st" and p = f] Cons.prems
    by (simp add: acquire_step_previous acquire_step_norms_some)
qed

lemma acquire_run_norms: "norm_calls (acquire_run opts fl cv e taken) = zip taken (tl taken)"
proof (cases taken)
  case Nil
  then show ?thesis by (simp add: acquire_run_def acquire_init_def)
next
  case (Cons f rest)
  have "previous_frame (acquire_step opts fl cv e f acquire_init) = Some f"
    by (rule acquire_step_previous)
  from acquire_foldl_norms[OF this, where taken = rest]
  show ?thesis
    using Cons by (simp add: acquire_run_def acquire_step_norms_none acquire_init_def)
qed

lemma acquire_step_window:
  "captured_frames (acquire_step opts fl cv e f st) =
     (if int (length (captured_frames st)) + 1 > e
      then tl (captured_frames st @ [f]) else captured_frames st @ [f])"
  by (simp add: acquire_step_def Let_def split: option.splits)

lemma tl_drop_snoc:
  assumes "n \<le> length xs"
  shows "tl (drop n xs @ [x]) = drop (Suc n) (xs @ [x])"
proof -
  have step: "drop (Suc n) ys = tl (drop n ys)" for ys :: "'a list"
    by (simp add: drop_Suc tl_drop)
  have "drop n (xs @ [x]) = drop n xs @ [x]"
    using assms by simp
  then show ?thesis using step[of "xs @ [x]"] by simp
qed

lemma acquire_run_snoc:
  "acquire_run opts fl cv e (xs @ [x]) = acquire_step opts fl cv e x (acquire_run opts fl cv e xs)"
  by (simp add: acquire_run_def)

lemma acquire_run_window_all:
  "captured_frames (acquire_run opts fl cv e taken) = drop (length taken - nat e) taken"
proof (induction taken rule: rev_induct)
  case Nil
  then show ?case by (simp add: acquire_run_def acquire_init_def)
next
  case (snoc x xs)
  show ?case
  proof (cases "nat e \<le> length xs")
    case True
    then have "int (length (drop (length xs - nat e) xs)) + 1 > e"
      by simp
    moreover have "Suc (length xs - nat e) = length (xs @ [x]) - nat e"
      using True by simp
    ultimately show ?thesis
      using snoc tl_drop_snoc[of "length xs - nat e" xs x]
      by (simp add: acquire_run_snoc acquire_step_window del: length_append)
  next
    case False
    then have "int (length xs) < e" "length xs - nat e = 0" "Suc (length xs) - nat e = 0"
      by linarith+
    then show ?thesis using snoc
      by (simp add: acquire_run_snoc acquire_step_window)
  qed
qed

lemma unhide_loop_foldl:
  "unhide_loop opts fl cv cam st = Some (st', rest) \<Longrightarrow>
   \<exists>taken. cam = taken @ rest
     \<and> st' = foldl (\<lambda>st frame. unhide_step opts fl cv frame st) st taken"
proof (induction cam arbitrary: st)
  case Nil
  then show ?case by (simp split: if_splits)
next
  case (Cons f cam)
  show ?case
  proof (cases "u_stable_captured_frames st < motion_stability_duration opts")
    case True
    then have "unhide_loop opts fl cv cam (unhide_step opts fl cv f st) = Some (st', rest)"
      using Cons.prems by simp
    then obtain taken where "cam = taken @ rest"
        "st' = foldl (\<lambda>st frame. unhide_step opts fl cv frame st) (unhide_step opts fl cv f st) taken"
      using Cons.IH by blast
    then show ?thesis by (intro exI[of _ "f # taken"]) simp
  next
    case False
    then show ?thesis using Cons.prems by (intro exI[of _ "[]"]) simp
  qed
qed

lemma unhide_foldl_norms:
  "u_norm_calls (foldl (\<lambda>st frame. unhide_step opts fl cv frame st) st taken)
     = u_norm_calls st @ zip (u_previous_frame st # taken) taken"
proof (induction taken arbitrary: st)
  case Nil
  then show ?case by simp
next
  case (Cons f taken)
  show ?case
    using Cons.IH[where st = "unhide_step opts fl cv f st"]
    by (simp add: unhide_step_def Let_def)
qed

lemma unhide_loop_frame:
  "unhide_loop opts fl cv cam st = Some (st', rest) \<Longrightarrow>
   u_frame st \<noteq> None \<or> u_stable_captured_frames st < motion_stability_duration opts \<Longrightarrow>
   u_frame st' \<noteq> None"
proof (induction cam arbitrary: st)
  case Nil
  then show ?case by (auto split: if_splits)
next
  case (Cons f cam)
  show ?case
  proof (cases "u_stable_captured_frames st < motion_stability_duration opts")
    case True
    then have "unhide_loop opts fl cv cam (unhide_step opts fl cv f st) = Some (st', rest)"
      using Cons.prems by simp
    moreover have "u_frame (unhide_step opts fl cv f st) \<noteq> None"
      by (simp add: unhide_step_def Let_def)
    ultimately show ?thesis using Cons.IH by blast
  next
    case False
    then show ?thesis using Cons.prems by auto
  qed
qed

lemma unhide_loop_stable_run:
  "\<forall>(a, b)\<in>set (zip (u_previous_frame st # run) run). cv_norm cv a b \<le> stability_limit opts fl \<Longrightarrow>
   motion_stability_duration opts - u_stable_captured_frames st \<le> int (length run) \<Longrightarrow>
   \<exists>r. unhide_loop opts fl cv (run @ rest) st = Some r"
proof (induction run arbitrary: st)
  case Nil
  then show ?case by (cases rest) auto
next
  case (Cons f run)
  show ?case
  proof (cases "u_stable_captured_frames st < motion_stability_duration opts")
    case True
    have s: "cv_norm cv (u_previous_frame st) f \<le> stability_limit opts fl"
      using Cons.prems(1) by simp
    have "\<exists>r. unhide_loop opts fl cv (run @ rest) (unhide_step opts fl cv f st) = Some r"
    proof (rule Cons.IH)
      show "\<forall>(a, b)\<in>set (zip (u_previous_frame (unhide_step opts fl cv f st) # run) run).
          cv_norm cv a b \<le> stability_limit opts fl"
        using Cons.prems(1) by (simp add: unhide_step_def Let_def)
      show "motion_stability_duration opts - u_stable_captured_frames (unhide_step opts fl cv f st)
          \<le> int (length run)"
        using Cons.prems(2) s by (simp add: unhide_step_def Let_def)
    qed
    then show ?thesis using True by simp
  next
    case False
    then show ?thesis by simp
  qed
qed

lemma unhide_loop_eventually_stable:
  "0 \<le> u_stable_captured_frames st \<Longrightarrow>
   \<forall>(a, b)\<in>set (zip (last (u_previous_frame st # pre) # run) run).
      cv_norm cv a b \<le> stability_limit opts fl \<Longrightarrow>
   motion_stability_duration opts \<le> int (length run) \<Longrightarrow>
   \<exists>r. unhide_loop opts fl cv (pre @ run @ rest) st = Some r"
proof (induction pre arbitrary: st)
  case Nil
  then show ?case using unhide_loop_stable_run[where st = st and run = run and cv = cv and opts = opts
      and fl = fl and rest = rest] by simp
next
  case (Cons f pre)
  show ?case
  proof (cases "u_stable_captured_frames st < motion_stability_duration opts")
    case True
    have "\<exists>r. unhide_loop opts fl cv (pre @ run @ rest) (unhide_step opts fl cv f st) = Some r"
    proof (rule Cons.IH)
      show "0 \<le> u_stable_captured_frames (unhide_step opts fl cv f st)"
        using Cons.prems(1) by (simp add: unhide_step_def Let_def)
      show "\<forall>(a, b)\<in>set (zip (last (u_previous_frame (unhide_step opts fl cv f st) # pre) # run) run).
          cv_norm cv a b \<le> stability_limit opts fl"
        using Cons.prems(2) by (simp add: unhide_step_def Let_def)
      show "motion_stability_duration opts \<le> int (length run)" by (rule Cons.prems(3))
    qed
    then show ?thesis using True by simp
  next
    case False
    then show ?thesis by simp
  qed
qed

lemma capture_by_subtracting_run:
  assumes "capture_by_subtracting opts fl cv s = Some (r, s')"
  shows "\<exists>taken. camera s = taken @ camera s'
     \<and> r = Inr (Frame_list (subtract_background cv (captured_frames
           (acquire_run opts fl cv (motion_skip_frames opts + matching_n_frames opts) taken))))
     \<and> events s' = events s @ [Playfile_sys ''shake_it.wav'']
           @ norm_events (zip taken (tl taken)) @ [Play_async SHUTTER_TONE]
     \<and> busy s' = busy s \<and> later s' = later s
     \<and> full_image_for_capture_by_unhiding s' = full_image_for_capture_by_unhiding s"
proof -
  let ?e = "motion_skip_frames opts + matching_n_frames opts"
  obtain st cam where l: "acquire_loop opts fl cv ?e (camera s) acquire_init = Some (st, cam)"
    using assms by (auto simp: capture_by_subtracting_def Let_def split: option.splits)
  then obtain taken where t: "camera s = taken @ cam" "st = acquire_run opts fl cv ?e taken"
    using acquire_loop_foldl[OF l] by (auto simp: acquire_run_def)
  show ?thesis
    using assms l t
    by (intro exI[of _ taken])
       (auto simp: capture_by_subtracting_def Let_def acquire_run_norms)
qed

lemma capture_moving_objects_run:
  assumes "capture_moving_objects opts fl cv n s = Some (objs, s')"
  shows "\<exists>taken. camera s = taken @ camera s'
     \<and> objs = subtract_background_noisy cv (captured_frames
           (acquire_run opts fl cv (n + motion_skip_frames opts) taken))
     \<and> events s' = events s @ norm_events (zip taken (tl taken))"
proof -
  let ?e = "n + motion_skip_frames opts"
  obtain st cam where l: "acquire_loop opts fl cv ?e (camera s) acquire_init = Some (st, cam)"
    using assms by (auto simp: capture_moving_objects_def Let_def split: option.splits)
  then obtain taken where t: "camera s = taken @ cam" "st = acquire_run opts fl cv ?e taken"
    using acquire_loop_foldl[OF l] by (auto simp: acquire_run_def)
  show ?thesis
    using assms l t
    by (intro exI[of _ taken])
       (auto simp: capture_moving_objects_def Let_def acquire_run_norms)
qed

lemma capture_by_unhiding_first:
  assumes "full_image_for_capture_by_unhiding s = None" "camera s = f # cam"
  shows "capture_by_unhiding opts fl cv s =
     Some (Inr (Seconds 0),
           s\<lparr>full_image_for_capture_by_unhiding := Some f, camera := cam,
             events := events s @ [Camera_start, Playfile_sys ''register_step1.wav'',
                                   Play SHUTTER_TONE, Playfile_sys ''register_step2.wav'']\<rparr>)"
  using assms by (simp add: capture_by_unhiding_def)

lemma capture_by_unhiding_first_result:
  assumes "full_image_for_capture_by_unhiding s = None"
    "capture_by_unhiding opts fl cv s = Some (r, s')"
  shows "r = Inr (Seconds 0) \<and> full_image_for_capture_by_unhiding s' \<noteq> None"
  using assms by (auto simp: capture_by_unhiding_def Let_def split: list.splits)

lemma capture_by_unhiding_second:
  assumes "full_image_for_capture_by_unhiding s = Some full"
    "capture_by_unhiding opts fl cv s = Some (r, s')"
  shows "\<exists>taken. camera s = taken @ camera s'
     \<and> full_image_for_capture_by_unhiding s' = None
     \<and> busy s' = busy s \<and> later s' = later s
     \<and> (if 0 < motion_stability_duration opts
         then taken \<noteq> [] \<and> r = Inr (Frame_list [difference_object cv full (last taken)])
              \<and> events s' = events s @ norm_events (zip (full # taken) taken)
                    @ [Play_async SHUTTER_TONE]
         else taken = [] \<and> r = Inl Cv2_error \<and> events s' = events s)"
proof -
  obtain st cam where l: "unhide_loop opts fl cv (camera s) (unhide_init full) = Some (st, cam)"
    using assms by (auto simp: capture_by_unhiding_def Let_def split: option.splits)
  then obtain taken where t: "camera s = taken @ cam"
      "st = foldl (\<lambda>st frame. unhide_step opts fl cv frame st) (unhide_init full) taken"
    using unhide_loop_foldl[OF l] by auto
  have n: "u_norm_calls st = zip (full # taken) taken"
    using t(2) by (simp add: unhide_foldl_norms unhide_init_def)
  have fr: "u_frame st = (if taken = [] then None else Some (last taken))"
    unfolding t(2) by (induction taken rule: rev_induct) (simp_all add: unhide_init_def unhide_step_def Let_def)
  show ?thesis
  proof (cases "0 < motion_stability_duration opts")
    case True
    then have "u_frame st \<noteq> None"
      using unhide_loop_frame[OF l] by (simp add: unhide_init_def)
    then have ne: "taken \<noteq> []" using fr by auto
    show ?thesis
      using assms l t(1) n fr ne True
      by (intro exI[of _ taken]) (auto simp: capture_by_unhiding_def Let_def)
  next
    case False
    then have "st = unhide_init full" "cam = camera s"
      using l by (cases "camera s"; simp add: unhide_init_def)+
    then have e: "taken = []" using t(1) by simp
    show ?thesis
      using assms l t(1) n fr e False
      by (intro exI[of _ taken]) (auto simp: capture_by_unhiding_def Let_def norm_events_def)
  qed
qed

lemma capture_by_unhiding_returns:
  assumes "full_image_for_capture_by_unhiding s = Some full"
    "camera s = pre @ run @ rest"
    "\<forall>(a, b)\<in>set (zip (last (full # pre) # run) run). cv_norm cv a b \<le> stability_limit opts fl"
    "motion_stability_duration opts \<le> int (length run)"
  shows "\<exists>r s'. capture_by_unhiding opts fl cv s = Some (r, s')"
proof -
  have "\<exists>r. unhide_loop opts fl cv (pre @ run @ rest) (unhide_init full) = Some r"
    using assms(3,4) by (intro unhide_loop_eventually_stable) (simp_all add: unhide_init_def)
  then show ?thesis
    using assms(1,2)
    by (auto simp: capture_by_unhiding_def Let_def split: option.splits)
qed

text \<open>
The test runs, evaluated.
\<close>

lemmas run_simps = test_floats_def double_mul_def capture_by_subtracting_def capture_by_unhiding_def capture_moving_objects_def
  acquire_init_def still_moving_def acquire_step_def unhide_init_def unhide_step_def
  stability_limit_def scenario_options_def test_cv2_def brightness_distance_def idle_sys_def
  norm_events_def Let_def

lemma shaken_run:
  "capture_by_subtracting scenario_options test_floats test_cv2 shaken_sys =
     Some (Inr (Frame_list [80, 81, 82]),
       \<lparr>busy = False, full_image_for_capture_by_unhiding = None, camera = [83, 84], later = [],
        events = [Playfile_sys ''shake_it.wav'', Cv2_norm 10 40, Cv2_norm 40 80, Cv2_norm 80 81,
                  Cv2_norm 81 82, Play_async SHUTTER_TONE]\<rparr>)"
  by (simp add: run_simps shaken_sys_def)

lemma shaken_objects:
  "capture_moving_objects scenario_options test_floats test_cv2 3 shaken_sys =
     Some ([80, 81, 82],
       \<lparr>busy = False, full_image_for_capture_by_unhiding = None, camera = [83, 84], later = [],
        events = [Cv2_norm 10 40, Cv2_norm 40 80, Cv2_norm 80 81, Cv2_norm 81 82]\<rparr>)"
  by (simp add: run_simps shaken_sys_def)

lemma revealing_first:
  "capture_by_unhiding scenario_options test_floats test_cv2
      \<lparr>busy = True, full_image_for_capture_by_unhiding = None,
        camera = [50, 20, 21, 22, 23], later = [], events = []\<rparr>
    = Some (Inr (Seconds 0), revealing_sys)"
  by (simp add: run_simps revealing_sys_def)

lemma revealing_second:
  "capture_by_unhiding scenario_options test_floats test_cv2 revealing_sys =
     Some (Inr (Frame_list [28]),
       \<lparr>busy = True, full_image_for_capture_by_unhiding = None, camera = [23], later = [],
        events = [Camera_start, Playfile_sys ''register_step1.wav'', Play SHUTTER_TONE,
                  Playfile_sys ''register_step2.wav'', Cv2_norm 50 20, Cv2_norm 20 21, Cv2_norm 21 22,
                  Play_async SHUTTER_TONE]\<rparr>)"
  by (simp add: run_simps revealing_sys_def)

subsection \<open>Reveal by difference\<close>

text \<open>
  The two calls, in every configuration.  Called with no stored image,
  \<^verbatim>\<open>capture_by_unhiding\<close> captures one frame, stores it and returns the delay 0.  Called
  with a stored image, it has cleared the store whenever it returns or raises, and with a
  positive stability duration what it returns is a list of exactly one frame; it does
  return once the camera delivers a run of stable frames as long as the stability
  duration.  So after a first and a second call the store is empty, and a third call
  captures one frame, stores it and returns the delay 0, as a first call does.
\<close>

lemma capture_by_unhiding_cycle:
  "(full_image_for_capture_by_unhiding s = None \<and> camera s = f # cam \<longrightarrow>
      capture_by_unhiding opts fl cv s =
        Some (Inr (Seconds 0),
              s\<lparr>full_image_for_capture_by_unhiding := Some f, camera := cam,
                events := events s @ phase1_cues\<rparr>))
   \<and> (full_image_for_capture_by_unhiding s = Some full
        \<and> capture_by_unhiding opts fl cv s = Some (r, s') \<longrightarrow>
      full_image_for_capture_by_unhiding s' = None
      \<and> (0 < motion_stability_duration opts \<longrightarrow> (\<exists>x. r = Inr (Frame_list [x]))))
   \<and> (full_image_for_capture_by_unhiding s = Some full \<and> camera s = pre @ run @ rest
        \<and> 0 < motion_stability_duration opts
        \<and> motion_stability_duration opts \<le> int (length run)
        \<and> (\<forall>(a, b)\<in>set (zip (last (full # pre) # run) run).
              cv_norm cv a b \<le> stability_limit opts fl) \<longrightarrow>
      (\<exists>x s'. capture_by_unhiding opts fl cv s = Some (Inr (Frame_list [x]), s')
         \<and> full_image_for_capture_by_unhiding s' = None))
   \<and> (full_image_for_capture_by_unhiding s0 = None
        \<and> capture_by_unhiding opts fl cv s0 = Some (r1, s1)
        \<and> capture_by_unhiding opts fl cv s1 = Some (r2, s2)
        \<and> camera s2 = g # cam2 \<longrightarrow>
      r1 = Inr (Seconds 0) \<and> full_image_for_capture_by_unhiding s1 \<noteq> None
      \<and> full_image_for_capture_by_unhiding s2 = None
      \<and> capture_by_unhiding opts fl cv s2 =
          Some (Inr (Seconds 0),
                s2\<lparr>full_image_for_capture_by_unhiding := Some g, camera := cam2,
                   events := events s2 @ phase1_cues\<rparr>))"
proof (intro conjI impI)
  show "capture_by_unhiding opts fl cv s =
        Some (Inr (Seconds 0),
              s\<lparr>full_image_for_capture_by_unhiding := Some f, camera := cam,
                events := events s @ phase1_cues\<rparr>)"
    if "full_image_for_capture_by_unhiding s = None \<and> camera s = f # cam"
    using that capture_by_unhiding_first[where s = s and f = f and cam = cam and opts = opts
        and fl = fl and cv = cv]
    by (simp add: phase1_cues_def)
next
  assume h: "full_image_for_capture_by_unhiding s = Some full
        \<and> capture_by_unhiding opts fl cv s = Some (r, s')"
  then have a: "full_image_for_capture_by_unhiding s = Some full"
    "capture_by_unhiding opts fl cv s = Some (r, s')" by simp_all
  from capture_by_unhiding_second[OF a]
  show "full_image_for_capture_by_unhiding s' = None" by blast
  from capture_by_unhiding_second[OF a]
  show "\<exists>x. r = Inr (Frame_list [x])" if "0 < motion_stability_duration opts"
    using that by auto
next
  assume h: "full_image_for_capture_by_unhiding s = Some full \<and> camera s = pre @ run @ rest
        \<and> 0 < motion_stability_duration opts
        \<and> motion_stability_duration opts \<le> int (length run)
        \<and> (\<forall>(a, b)\<in>set (zip (last (full # pre) # run) run).
              cv_norm cv a b \<le> stability_limit opts fl)"
  then have a: "full_image_for_capture_by_unhiding s = Some full" by simp
  obtain r s' where b: "capture_by_unhiding opts fl cv s = Some (r, s')"
    using capture_by_unhiding_returns[where s = s and full = full and pre = pre and run = run
        and rest = rest and cv = cv and opts = opts and fl = fl] h
    by blast
  from capture_by_unhiding_second[OF a b] h
  show "\<exists>x s'. capture_by_unhiding opts fl cv s = Some (Inr (Frame_list [x]), s')
         \<and> full_image_for_capture_by_unhiding s' = None"
    using b by auto
next
  assume h: "full_image_for_capture_by_unhiding s0 = None
        \<and> capture_by_unhiding opts fl cv s0 = Some (r1, s1)
        \<and> capture_by_unhiding opts fl cv s1 = Some (r2, s2)
        \<and> camera s2 = g # cam2"
  then have 1: "r1 = Inr (Seconds 0) \<and> full_image_for_capture_by_unhiding s1 \<noteq> None"
    using capture_by_unhiding_first_result[where s = s0 and opts = opts and fl = fl and cv = cv
        and r = r1 and s' = s1]
    by blast
  then obtain full1 where f1: "full_image_for_capture_by_unhiding s1 = Some full1" by auto
  have 2: "full_image_for_capture_by_unhiding s2 = None"
    using capture_by_unhiding_second[OF f1, where opts = opts and fl = fl and cv = cv
        and r = r2 and s' = s2] h
    by blast
  show "r1 = Inr (Seconds 0)" using 1 by simp
  show "full_image_for_capture_by_unhiding s1 \<noteq> None" using 1 by simp
  show "full_image_for_capture_by_unhiding s2 = None" by (rule 2)
  show "capture_by_unhiding opts fl cv s2 =
          Some (Inr (Seconds 0),
                s2\<lparr>full_image_for_capture_by_unhiding := Some g, camera := cam2,
                   events := events s2 @ phase1_cues\<rparr>)"
    using capture_by_unhiding_first[where s = s2 and f = g and cam = cam2 and opts = opts
        and fl = fl and cv = cv] 2 h
    by (simp add: phase1_cues_def)
qed

lemma capture_by_unhiding_cycle_example:
  "full_image_for_capture_by_unhiding hidden_sys = None
   \<and> capture_by_unhiding scenario_options test_floats test_cv2 hidden_sys = Some (Inr (Seconds 0), revealing_sys)
   \<and> capture_by_unhiding scenario_options test_floats test_cv2 revealing_sys
       = Some (Inr (Frame_list [28]), revealed_sys)
   \<and> camera revealed_sys = 23 # []
   \<and> capture_by_unhiding scenario_options test_floats test_cv2 revealed_sys =
          Some (Inr (Seconds 0),
                revealed_sys\<lparr>full_image_for_capture_by_unhiding := Some 23, camera := [],
                   events := events revealed_sys @ phase1_cues\<rparr>)
   \<and> full_image_for_capture_by_unhiding revealing_sys = Some 50
   \<and> camera revealing_sys = [20] @ [21, 22] @ [23]
   \<and> (\<exists>x s'. capture_by_unhiding scenario_options test_floats test_cv2 revealing_sys
          = Some (Inr (Frame_list [x]), s') \<and> full_image_for_capture_by_unhiding s' = None)"
proof -
  have h: "full_image_for_capture_by_unhiding hidden_sys = None
        \<and> capture_by_unhiding scenario_options test_floats test_cv2 hidden_sys
            = Some (Inr (Seconds 0), revealing_sys)
        \<and> capture_by_unhiding scenario_options test_floats test_cv2 revealing_sys
            = Some (Inr (Frame_list [28]), revealed_sys)
        \<and> camera revealed_sys = 23 # []"
    using revealing_first revealing_second by (simp add: hidden_sys_def revealed_sys_def)
  have k: "full_image_for_capture_by_unhiding revealing_sys = Some 50
        \<and> camera revealing_sys = [20] @ [21, 22] @ [23]
        \<and> 0 < motion_stability_duration scenario_options
        \<and> motion_stability_duration scenario_options \<le> int (length [21, 22 :: nat])
        \<and> (\<forall>(a, b)\<in>set (zip (last (50 # [20]) # [21, 22]) [21, 22]).
              cv_norm test_cv2 a b \<le> stability_limit scenario_options test_floats)"
    by (simp add: revealing_sys_def scenario_options_def test_cv2_def brightness_distance_def
        stability_limit_def test_floats_def double_mul_def)
  note t = capture_by_unhiding_cycle [where opts = scenario_options and fl = test_floats and cv = test_cv2
      and s = revealing_sys and full = 50 and pre = "[20]" and run = "[21, 22]" and rest = "[23]"
      and ?s0.0 = hidden_sys and ?s1.0 = revealing_sys and ?s2.0 = revealed_sys
      and ?r1.0 = "Inr (Seconds 0)" and ?r2.0 = "Inr (Frame_list [28])" and g = 23 and ?cam2.0 = "[]"]
  have 3: "\<exists>x s'. capture_by_unhiding scenario_options test_floats test_cv2 revealing_sys
          = Some (Inr (Frame_list [x]), s') \<and> full_image_for_capture_by_unhiding s' = None"
    using t[THEN conjunct2, THEN conjunct2, THEN conjunct1, rule_format, OF k] .
  have 4: "capture_by_unhiding scenario_options test_floats test_cv2 revealed_sys =
          Some (Inr (Seconds 0),
                revealed_sys\<lparr>full_image_for_capture_by_unhiding := Some 23, camera := [],
                   events := events revealed_sys @ phase1_cues\<rparr>)"
    using t[THEN conjunct2, THEN conjunct2, THEN conjunct2, rule_format, OF h] by blast
  show ?thesis using h k 3 4 by blast
qed

text \<open>
  C6.  A call with a stored image is to consume the store and return exactly one frame.
  With a stability duration of 0 the loop of that call does not run, \<^verbatim>\<open>frame\<close> is still
  \<^verbatim>\<open>None\<close>, and the call raises in \<^verbatim>\<open>cv2.resize\<close> instead of returning a frame, although the
  comment after the loop says that \<^verbatim>\<open>frame\<close> contains the background.  Here the first call
  stores frame 50 and returns the delay 0; the second call clears the store, captures
  nothing and raises.
\<close>

theorem capture_by_unhiding_raises_without_stability_wait:
  "capture_by_unhiding impatient_options test_floats test_cv2
      \<lparr>busy = True, full_image_for_capture_by_unhiding = None,
        camera = [50, 20, 21, 22, 23], later = [], events = []\<rparr>
    = Some (Inr (Seconds 0),
       \<lparr>busy = True, full_image_for_capture_by_unhiding = Some 50,
        camera = [20, 21, 22, 23], later = [],
        events = [Camera_start, Playfile_sys ''register_step1.wav'', Play SHUTTER_TONE,
               Playfile_sys ''register_step2.wav'']\<rparr>)
   \<and> capture_by_unhiding impatient_options test_floats test_cv2
      \<lparr>busy = True, full_image_for_capture_by_unhiding = Some 50,
        camera = [20, 21, 22, 23], later = [],
        events = [Camera_start, Playfile_sys ''register_step1.wav'', Play SHUTTER_TONE,
               Playfile_sys ''register_step2.wav'']\<rparr>
    = Some (Inl Cv2_error,
       \<lparr>busy = True, full_image_for_capture_by_unhiding = None,
        camera = [20, 21, 22, 23], later = [],
        events = [Camera_start, Playfile_sys ''register_step1.wav'', Play SHUTTER_TONE,
               Playfile_sys ''register_step2.wav'']\<rparr>)"
  by (simp add: run_simps impatient_options_def)

subsection \<open>Which frames the stability test compares\<close>

text \<open>
  C7, as stated, fails for \<^verbatim>\<open>capture_by_unhiding\<close>: its loop starts with
  \<^verbatim>\<open>previous_frame = full_image\<close>, the frame captured by the first call.  Here the first
  call captures frame 50; the second call captures 20, 21 and 22, and its first
  comparison is of 50 with 20: the first frame of the loop is not skipped, and it is
  compared with a frame captured before the loop began.
\<close>

theorem unhiding_compares_first_frame_with_reference:
  "capture_by_unhiding scenario_options test_floats test_cv2
      \<lparr>busy = True, full_image_for_capture_by_unhiding = None,
        camera = [50, 20, 21, 22, 23], later = [], events = []\<rparr>
    = Some (Inr (Seconds 0),
       \<lparr>busy = True, full_image_for_capture_by_unhiding = Some 50,
        camera = [20, 21, 22, 23], later = [],
        events = [Camera_start, Playfile_sys ''register_step1.wav'', Play SHUTTER_TONE,
               Playfile_sys ''register_step2.wav'']\<rparr>)
   \<and> capture_by_unhiding scenario_options test_floats test_cv2
      \<lparr>busy = True, full_image_for_capture_by_unhiding = Some 50,
        camera = [20, 21, 22, 23], later = [],
        events = [Camera_start, Playfile_sys ''register_step1.wav'', Play SHUTTER_TONE,
               Playfile_sys ''register_step2.wav'']\<rparr>
    = Some (Inr (Frame_list [28]),
       \<lparr>busy = True, full_image_for_capture_by_unhiding = None, camera = [23], later = [],
        events = [Camera_start, Playfile_sys ''register_step1.wav'', Play SHUTTER_TONE,
                  Playfile_sys ''register_step2.wav'', Cv2_norm 50 20, Cv2_norm 20 21, Cv2_norm 21 22,
                  Play_async SHUTTER_TONE]\<rparr>)"
  by (simp add: run_simps)

text \<open>
  C7, amended.  In \<^verbatim>\<open>capture_by_subtracting\<close> and \<^verbatim>\<open>capture_moving_objects\<close> the first
  captured frame is compared with nothing, and every later frame with the frame captured
  just before it.  In the second call of \<^verbatim>\<open>capture_by_unhiding\<close> the first captured frame
  is compared with the stored image of the first call, and every later frame with the
  frame captured just before it.
\<close>

theorem stability_comparison_pairs:
  "(capture_by_subtracting opts fl cv s = Some (r, s') \<longrightarrow>
      (\<exists>taken. camera s = taken @ camera s'
         \<and> norms_of (events s') = norms_of (events s) @ zip taken (tl taken)))
   \<and> (capture_moving_objects opts fl cv n s = Some (objs, s'') \<longrightarrow>
      (\<exists>taken. camera s = taken @ camera s''
         \<and> norms_of (events s'') = norms_of (events s) @ zip taken (tl taken)))
   \<and> (full_image_for_capture_by_unhiding s = Some full
        \<and> capture_by_unhiding opts fl cv s = Some (r, s') \<longrightarrow>
      (\<exists>taken. camera s = taken @ camera s'
         \<and> norms_of (events s') = norms_of (events s) @ zip (full # taken) taken))"
proof (intro conjI impI)
  assume "capture_by_subtracting opts fl cv s = Some (r, s')"
  from capture_by_subtracting_run[OF this]
  show "\<exists>taken. camera s = taken @ camera s'
         \<and> norms_of (events s') = norms_of (events s) @ zip taken (tl taken)"
    by (auto simp: norms_of_append norms_of_norm_events)
next
  assume "capture_moving_objects opts fl cv n s = Some (objs, s'')"
  from capture_moving_objects_run[OF this]
  show "\<exists>taken. camera s = taken @ camera s''
         \<and> norms_of (events s'') = norms_of (events s) @ zip taken (tl taken)"
    by (auto simp: norms_of_append norms_of_norm_events)
next
  assume "full_image_for_capture_by_unhiding s = Some full
        \<and> capture_by_unhiding opts fl cv s = Some (r, s')"
  then have a: "full_image_for_capture_by_unhiding s = Some full"
    "capture_by_unhiding opts fl cv s = Some (r, s')" by simp_all
  from capture_by_unhiding_second[OF a]
  show "\<exists>taken. camera s = taken @ camera s'
         \<and> norms_of (events s') = norms_of (events s) @ zip (full # taken) taken"
    by (auto simp: norms_of_append norms_of_norm_events split: if_splits)
qed

theorem stability_comparison_pairs_witness:
  "capture_by_subtracting scenario_options test_floats test_cv2 shaken_sys =
     Some (Inr (Frame_list [80, 81, 82]),
       \<lparr>busy = False, full_image_for_capture_by_unhiding = None, camera = [83, 84], later = [],
        events = [Playfile_sys ''shake_it.wav'', Cv2_norm 10 40, Cv2_norm 40 80, Cv2_norm 80 81,
                  Cv2_norm 81 82, Play_async SHUTTER_TONE]\<rparr>)
   \<and> (\<exists>taken. camera shaken_sys = taken @ [83, 84]
        \<and> [(10, 40), (40, 80), (80, 81), (81, 82)] = zip taken (tl taken))
   \<and> full_image_for_capture_by_unhiding revealing_sys = Some 50
   \<and> (\<exists>taken. camera revealing_sys = taken @ [23]
        \<and> [(50, 20), (20, 21), (21, 22)] = zip (50 # taken) taken)
   \<and> capture_moving_objects scenario_options test_floats test_cv2 3 shaken_sys =
     Some ([80, 81, 82],
       \<lparr>busy = False, full_image_for_capture_by_unhiding = None, camera = [83, 84], later = [],
        events = [Cv2_norm 10 40, Cv2_norm 40 80, Cv2_norm 80 81, Cv2_norm 81 82]\<rparr>)"
proof -
  note a = shaken_run
  have b: "full_image_for_capture_by_unhiding revealing_sys = Some 50
      \<and> capture_by_unhiding scenario_options test_floats test_cv2 revealing_sys =
     Some (Inr (Frame_list [28]),
       \<lparr>busy = True, full_image_for_capture_by_unhiding = None, camera = [23], later = [],
        events = [Camera_start, Playfile_sys ''register_step1.wav'', Play SHUTTER_TONE,
                  Playfile_sys ''register_step2.wav'', Cv2_norm 50 20, Cv2_norm 20 21, Cv2_norm 21 22,
                  Play_async SHUTTER_TONE]\<rparr>)"
    using revealing_second by (simp add: revealing_sys_def)
  have 1: "\<exists>taken. camera shaken_sys = taken @ [83, 84]
        \<and> [(10, 40), (40, 80), (80, 81), (81, 82)] = zip taken (tl taken)"
    using stability_comparison_pairs[THEN conjunct1, rule_format, OF a]
    by (simp add: shaken_sys_def idle_sys_def)
  have 2: "\<exists>taken. camera revealing_sys = taken @ [23]
        \<and> [(50, 20), (20, 21), (21, 22)] = zip (50 # taken) taken"
    using stability_comparison_pairs[THEN conjunct2, THEN conjunct2, rule_format, OF b]
    by (simp add: revealing_sys_def)
  have 3: "\<exists>taken. camera shaken_sys = taken @ [83, 84]
        \<and> [(10, 40), (40, 80), (80, 81), (81, 82)] = zip taken (tl taken)"
    using stability_comparison_pairs[THEN conjunct2, THEN conjunct1, rule_format, OF shaken_objects]
    by (simp add: shaken_sys_def idle_sys_def)
  show ?thesis using a b 1 2 3 shaken_objects by blast
qed

subsection \<open>The window of captured frames\<close>

text \<open>
  C9.  In the acquisition loop of \<^verbatim>\<open>capture_by_subtracting\<close> (and of
  \<^verbatim>\<open>capture_moving_objects\<close>), after every iteration the window holds at most
  \<^verbatim>\<open>expected_number_of_frames\<close> frames, which is
  \<^verbatim>\<open>motion_skip_frames + matching_n_frames\<close> in \<^verbatim>\<open>capture_by_subtracting\<close>: it holds the
  most recent frames, as many as the bound allows (none when the bound is negative).  An
  iteration appends the new frame and, when that exceeds the bound, drops the oldest
  frame; nothing else changes the window.  The frames handed to background subtraction
  are the window after the last iteration.
\<close>

theorem frame_window_bounded:
  "length (captured_frames (acquire_run opts fl cv expected taken)) \<le> nat expected
   \<and> (0 \<le> expected \<longrightarrow> int (length (captured_frames (acquire_run opts fl cv expected taken))) \<le> expected)
   \<and> captured_frames (acquire_run opts fl cv expected taken) = drop (length taken - nat expected) taken
   \<and> captured_frames (acquire_run opts fl cv expected (taken @ [frame])) =
       (if int (length (captured_frames (acquire_run opts fl cv expected taken))) + 1 > expected
        then tl (captured_frames (acquire_run opts fl cv expected taken) @ [frame])
        else captured_frames (acquire_run opts fl cv expected taken) @ [frame])
   \<and> (capture_by_subtracting opts fl cv s = Some (r, s') \<longrightarrow>
        (\<exists>captured. camera s = captured @ camera s'
           \<and> r = Inr (Frame_list (subtract_background cv (captured_frames
                 (acquire_run opts fl cv (motion_skip_frames opts + matching_n_frames opts) captured))))))
   \<and> (capture_moving_objects opts fl cv n s = Some (objs, s'') \<longrightarrow>
        (\<exists>captured. camera s = captured @ camera s''
           \<and> objs = subtract_background_noisy cv (captured_frames
                 (acquire_run opts fl cv (n + motion_skip_frames opts) captured))))"
proof (intro conjI impI)
  show "length (captured_frames (acquire_run opts fl cv expected taken)) \<le> nat expected"
    by (simp add: acquire_run_window_all)
  then show "int (length (captured_frames (acquire_run opts fl cv expected taken))) \<le> expected"
    if "0 \<le> expected" using that by linarith
  show "captured_frames (acquire_run opts fl cv expected taken) = drop (length taken - nat expected) taken"
    by (rule acquire_run_window_all)
  show "captured_frames (acquire_run opts fl cv expected (taken @ [frame])) =
       (if int (length (captured_frames (acquire_run opts fl cv expected taken))) + 1 > expected
        then tl (captured_frames (acquire_run opts fl cv expected taken) @ [frame])
        else captured_frames (acquire_run opts fl cv expected taken) @ [frame])"
    by (simp only: acquire_run_snoc acquire_step_window)
  show "\<exists>captured. camera s = captured @ camera s'
           \<and> r = Inr (Frame_list (subtract_background cv (captured_frames
                 (acquire_run opts fl cv (motion_skip_frames opts + matching_n_frames opts) captured))))"
    if "capture_by_subtracting opts fl cv s = Some (r, s')"
    using capture_by_subtracting_run[OF that] by blast
  show "\<exists>captured. camera s = captured @ camera s''
           \<and> objs = subtract_background_noisy cv (captured_frames
                 (acquire_run opts fl cv (n + motion_skip_frames opts) captured))"
    if "capture_moving_objects opts fl cv n s = Some (objs, s'')"
    using capture_moving_objects_run[OF that] by blast
qed

theorem frame_window_bounded_witness:
  "(0 :: int) \<le> 5
   \<and> int (length (captured_frames (acquire_run scenario_options test_floats test_cv2 5 [10, 40, 80, 81, 82, 83, 84]))) \<le> 5
   \<and> captured_frames (acquire_run scenario_options test_floats test_cv2 5 [10, 40, 80, 81, 82, 83, 84])
       = [80, 81, 82, 83, 84]
   \<and> capture_by_subtracting scenario_options test_floats test_cv2 shaken_sys =
     Some (Inr (Frame_list [80, 81, 82]),
       \<lparr>busy = False, full_image_for_capture_by_unhiding = None, camera = [83, 84], later = [],
        events = [Playfile_sys ''shake_it.wav'', Cv2_norm 10 40, Cv2_norm 40 80, Cv2_norm 80 81,
                  Cv2_norm 81 82, Play_async SHUTTER_TONE]\<rparr>)
   \<and> (\<exists>captured. camera shaken_sys = captured @ [83, 84]
           \<and> (Inr (Frame_list [80, 81, 82]) :: error + nat capture_result)
              = Inr (Frame_list (subtract_background test_cv2 (captured_frames
                 (acquire_run scenario_options test_floats test_cv2
                    (motion_skip_frames scenario_options + matching_n_frames scenario_options)
                    captured)))))"
proof -
  note t = frame_window_bounded [where opts = scenario_options and fl = test_floats and cv = test_cv2
      and expected = 5
      and taken = "[10, 40, 80, 81, 82, 83, 84]" and s = shaken_sys]
  have 1: "int (length (captured_frames (acquire_run scenario_options test_floats test_cv2 5 [10, 40, 80, 81, 82, 83, 84]))) \<le> 5"
    using t by simp
  have 2: "captured_frames (acquire_run scenario_options test_floats test_cv2 5 [10, 40, 80, 81, 82, 83, 84])
       = [80, 81, 82, 83, 84]"
    using t by simp
  have 3: "\<exists>captured. camera shaken_sys = captured @ [83, 84]
           \<and> (Inr (Frame_list [80, 81, 82]) :: error + nat capture_result)
              = Inr (Frame_list (subtract_background test_cv2 (captured_frames
                 (acquire_run scenario_options test_floats test_cv2
                    (motion_skip_frames scenario_options + matching_n_frames scenario_options)
                    captured))))"
    using t[THEN conjunct2, THEN conjunct2, THEN conjunct2, THEN conjunct2, THEN conjunct1,
        rule_format, OF shaken_run]
    by simp
  show ?thesis using 1 2 3 shaken_run by simp
qed

subsection \<open>An unknown strategy name\<close>

lemma capture_frames_then_raises:
  "\<not> known_strategy (motion_background_removal_strategy opts) \<Longrightarrow>
   capture_frames_then opts fl cv callback s = Some (Inl Exception, s\<lparr>busy := True\<rparr>)"
  by (simp add: capture_frames_then_def known_strategy_def)

text \<open>
  C8.  With a strategy name that is none of the three known names,
  \<^verbatim>\<open>capture_frames_then\<close> raises \<^verbatim>\<open>Exception\<close>, and apart from \<^verbatim>\<open>busy\<close> the state is as it
  was: no frame is captured and nothing is played (no strategy has run), the callback is
  not called, and nothing is scheduled.
\<close>

theorem capture_frames_then_unknown_strategy:
  assumes "\<not> known_strategy (motion_background_removal_strategy opts)"
  shows "capture_frames_then opts fl cv callback s = Some (Inl Exception, s\<lparr>busy := True\<rparr>)"
  using assms by (rule capture_frames_then_raises)

theorem capture_frames_then_unknown_strategy_witness:
  "\<not> known_strategy (motion_background_removal_strategy misspelt_options)
   \<and> capture_frames_then misspelt_options test_floats test_cv2 no_callback (idle_sys [1, 2, 3])
       = Some (Inl Exception, \<lparr>busy = True, full_image_for_capture_by_unhiding = None,
           camera = [1, 2, 3], later = [], events = []\<rparr>)"
proof -
  have h: "\<not> known_strategy (motion_background_removal_strategy misspelt_options)"
    by (simp add: known_strategy_def misspelt_options_def scenario_options_def)
  show ?thesis
    using h capture_frames_then_unknown_strategy
      [OF h, where fl = test_floats and cv = test_cv2 and callback = no_callback
         and s = "idle_sys [1, 2, 3]"]
    by (simp add: idle_sys_def)
qed

lemma capture_everything_keeps:
  "capture_everything opts cv s = Some (r, s') \<Longrightarrow> busy s' = busy s \<and> later s' = later s"
  by (auto simp: capture_everything_def split: option.splits)

lemma capture_by_unhiding_keeps:
  "capture_by_unhiding opts fl cv s = Some (r, s') \<Longrightarrow> busy s' = busy s \<and> later s' = later s"
  by (auto simp: capture_by_unhiding_def Let_def split: option.splits list.splits)

lemma capture_by_subtracting_keeps:
  "capture_by_subtracting opts fl cv s = Some (r, s') \<Longrightarrow>
   busy s' = busy s \<and> later s' = later s"
  by (auto simp: capture_by_subtracting_def Let_def split: option.splits)

lemma capture_frames_then_outcome:
  assumes "capture_frames_then opts fl cv callback s = Some (Inl e, s')"
  shows "busy s' \<and> later s' = later s"
proof -
  let ?s1 = "s\<lparr>busy := True\<rparr>"
  let ?name = "motion_background_removal_strategy opts"
  define outcome where "outcome =
            (if ?name = ''keep-everything'' then capture_everything opts cv ?s1
             else if ?name = ''now-you-see-me'' then capture_by_unhiding opts fl cv ?s1
             else if ?name = ''moving-object'' then capture_by_subtracting opts fl cv ?s1
             else Some (Inl Exception, ?s1))"
  obtain r s2 where o: "outcome = Some (r, s2)"
    using assms unfolding capture_frames_then_def Let_def outcome_def[symmetric]
    by (cases outcome) auto
  have k: "busy s2 \<and> later s2 = later s"
    using o capture_everything_keeps[of opts cv ?s1 r s2]
      capture_by_unhiding_keeps[of opts fl cv ?s1 r s2]
      capture_by_subtracting_keeps[of opts fl cv ?s1 r s2]
    by (auto simp: outcome_def split: if_splits)
  have "s' = s2"
    using assms o unfolding capture_frames_then_def Let_def outcome_def[symmetric]
    by (auto split: sum.splits capture_result.splits option.splits)
  then show ?thesis using k by simp
qed

text \<open>
  C10.  Whenever \<^verbatim>\<open>capture_frames_then\<close> raises, be it on an unknown strategy name, in the
  strategy or in the callback, \<^verbatim>\<open>busy\<close> is set and nothing more is scheduled than before the
  call, so \<^verbatim>\<open>ready\<close>, which would clear \<^verbatim>\<open>busy\<close>, is not.  In that state \<^verbatim>\<open>button_handler\<close>
  and \<^verbatim>\<open>keyboard_handler\<close> return at once on every event and every key, leaving the state
  as it is; the quit key does not exit.  On an unknown strategy name the function does
  raise.
\<close>

theorem busy_never_cleared_after_raise:
  "(capture_frames_then opts fl cv callback s = Some (Inl e, s') \<longrightarrow>
      busy s' \<and> later s' = later s
      \<and> (\<forall>event pin. button_handler opts fl cv match_item_cb record_new_item_cb event pin s'
            = Some (Inr (), s'))
      \<and> (\<forall>key. keyboard_handler opts fl cv match_item_cb record_new_item_cb key s'
            = Some (Inr (), s'))
      \<and> keyboard_handler opts fl cv match_item_cb record_new_item_cb (Some ''q'') s'
            \<noteq> Some (Inl SystemExit, s')
      \<and> \<not> busy (ready s'))
   \<and> (\<not> known_strategy (motion_background_removal_strategy opts) \<longrightarrow>
        (\<exists>s'. capture_frames_then opts fl cv callback s = Some (Inl Exception, s')))"
proof (rule conjI)
  show "capture_frames_then opts fl cv callback s = Some (Inl e, s') \<longrightarrow>
      busy s' \<and> later s' = later s
      \<and> (\<forall>event pin. button_handler opts fl cv match_item_cb record_new_item_cb event pin s'
            = Some (Inr (), s'))
      \<and> (\<forall>key. keyboard_handler opts fl cv match_item_cb record_new_item_cb key s'
            = Some (Inr (), s'))
      \<and> keyboard_handler opts fl cv match_item_cb record_new_item_cb (Some ''q'') s'
            \<noteq> Some (Inl SystemExit, s')
      \<and> \<not> busy (ready s')"
  proof (rule impI)
    assume a: "capture_frames_then opts fl cv callback s = Some (Inl e, s')"
    have b: "busy s' \<and> later s' = later s"
      by (rule capture_frames_then_outcome[OF a])
    then show "busy s' \<and> later s' = later s
      \<and> (\<forall>event pin. button_handler opts fl cv match_item_cb record_new_item_cb event pin s'
            = Some (Inr (), s'))
      \<and> (\<forall>key. keyboard_handler opts fl cv match_item_cb record_new_item_cb key s'
            = Some (Inr (), s'))
      \<and> keyboard_handler opts fl cv match_item_cb record_new_item_cb (Some ''q'') s'
            \<noteq> Some (Inl SystemExit, s')
      \<and> \<not> busy (ready s')"
      by (simp add: button_handler_def keyboard_handler_def ready_def)
  qed
  show "\<not> known_strategy (motion_background_removal_strategy opts) \<longrightarrow>
        (\<exists>s'. capture_frames_then opts fl cv callback s = Some (Inl Exception, s'))"
    using capture_frames_then_raises by blast
qed

theorem busy_never_cleared_after_raise_witness:
  "capture_frames_then misspelt_options test_floats test_cv2 no_callback (idle_sys [1, 2, 3])
     = Some (Inl Exception, \<lparr>busy = True, full_image_for_capture_by_unhiding = None,
         camera = [1, 2, 3], later = [], events = []\<rparr>)
   \<and> keyboard_handler misspelt_options test_floats test_cv2 no_callback no_callback (Some ''q'')
        \<lparr>busy = True, full_image_for_capture_by_unhiding = None,
           camera = [1, 2, 3], later = [], events = []\<rparr>
      = Some (Inr (), \<lparr>busy = True, full_image_for_capture_by_unhiding = None,
           camera = [1, 2, 3], later = [], events = []\<rparr>)
   \<and> capture_frames_then impatient_options test_floats test_cv2 no_callback revealing_sys
     = Some (Inl Cv2_error, \<lparr>busy = True, full_image_for_capture_by_unhiding = None,
         camera = [20, 21, 22, 23], later = [],
         events = [Camera_start, Playfile_sys ''register_step1.wav'', Play SHUTTER_TONE,
                   Playfile_sys ''register_step2.wav'']\<rparr>)
   \<and> button_handler impatient_options test_floats test_cv2 no_callback no_callback ''click'' 17
        \<lparr>busy = True, full_image_for_capture_by_unhiding = None,
         camera = [20, 21, 22, 23], later = [],
         events = [Camera_start, Playfile_sys ''register_step1.wav'', Play SHUTTER_TONE,
                   Playfile_sys ''register_step2.wav'']\<rparr>
      = Some (Inr (), \<lparr>busy = True, full_image_for_capture_by_unhiding = None,
         camera = [20, 21, 22, 23], later = [],
         events = [Camera_start, Playfile_sys ''register_step1.wav'', Play SHUTTER_TONE,
                   Playfile_sys ''register_step2.wav'']\<rparr>)
   \<and> capture_frames_then everything_options test_floats test_cv2 raising_callback
        (idle_sys [1, 2, 3, 4])
     = Some (Inl IndexError, \<lparr>busy = True, full_image_for_capture_by_unhiding = None,
         camera = [4], later = [], events = [Play_async SHUTTER_TONE]\<rparr>)
   \<and> keyboard_handler everything_options test_floats test_cv2 raising_callback raising_callback
        (Some ''m'')
        \<lparr>busy = True, full_image_for_capture_by_unhiding = None,
         camera = [4], later = [], events = [Play_async SHUTTER_TONE]\<rparr>
      = Some (Inr (), \<lparr>busy = True, full_image_for_capture_by_unhiding = None,
         camera = [4], later = [], events = [Play_async SHUTTER_TONE]\<rparr>)"
proof -
  have 1: "capture_frames_then misspelt_options test_floats test_cv2 no_callback
      (idle_sys [1, 2, 3])
     = Some (Inl Exception, \<lparr>busy = True, full_image_for_capture_by_unhiding = None,
         camera = [1, 2, 3], later = [], events = []\<rparr>)"
    by (simp add: capture_frames_then_def misspelt_options_def scenario_options_def idle_sys_def)
  have 2: "capture_frames_then impatient_options test_floats test_cv2 no_callback revealing_sys
     = Some (Inl Cv2_error, \<lparr>busy = True, full_image_for_capture_by_unhiding = None,
         camera = [20, 21, 22, 23], later = [],
         events = [Camera_start, Playfile_sys ''register_step1.wav'', Play SHUTTER_TONE,
                   Playfile_sys ''register_step2.wav'']\<rparr>)"
    by (simp add: capture_frames_then_def run_simps impatient_options_def revealing_sys_def)
  have 3: "capture_frames_then everything_options test_floats test_cv2 raising_callback
        (idle_sys [1, 2, 3, 4])
     = Some (Inl IndexError, \<lparr>busy = True, full_image_for_capture_by_unhiding = None,
         camera = [4], later = [], events = [Play_async SHUTTER_TONE]\<rparr>)"
    by (simp add: capture_frames_then_def capture_everything_def everything_options_def
        scenario_options_def idle_sys_def test_cv2_def raising_callback_def)
  note t1 = busy_never_cleared_after_raise [THEN conjunct1, rule_format, OF 1,
      where match_item_cb = no_callback and record_new_item_cb = no_callback]
  note t2 = busy_never_cleared_after_raise [THEN conjunct1, rule_format, OF 2,
      where match_item_cb = no_callback and record_new_item_cb = no_callback]
  note t3 = busy_never_cleared_after_raise [THEN conjunct1, rule_format, OF 3,
      where match_item_cb = raising_callback and record_new_item_cb = raising_callback]
  show ?thesis using 1 2 3 t1 t2 t3 by blast
qed

end
